theory Spec2Isabelle
  imports Main "HOL-Library.Word"
begin

section \<open>Data model of the filter evaluation engine\<close>

text \<open>
  The engine is \<^verbatim>\<open>internal/proxy/base/proxy.go\<close>. Its collaborators (the verdict
  store, the filter registry, the filters, the configuration structs) are declared in
  other packages; they appear here as the interfaces the engine calls, with their
  behaviour left as a parameter.
\<close>

text \<open>
  Go errors. \<open>Err\<close> is an error of a collaborator, with its message; the other
  constructors are the errors this code builds with \<^verbatim>\<open>fmt.Errorf\<close>, wrapping their
  cause where the format has \<^verbatim>\<open>%w\<close>.
\<close>

datatype error =
    Err string
  | CantFindFilter string string
  | CantLoadTLSConfig error
  | CantCreateBodyReader error
  | CantDumpRequest error
  | CantReadBody error

text \<open>
  A Go run-time panic: a method call on a nil interface value, or the panic of
  \<^verbatim>\<open>netip.MustParseAddrPort\<close> with the parse error.
\<close>

datatype panic = NilDereference | MustParse error

text \<open>
  \<^verbatim>\<open>database.Verdict\<close>: the two counters of one identity. The engine only compares
  them with the thresholds, so the width of the Go integer type plays no role.
\<close>

record Verdict =
  Accepts :: int
  Rejects :: int

record FilterSettings =
  Action :: string
  RejectThreshold :: int
  NoRejectThreshold :: int

record TLSFiles =
  Cert :: string
  Key :: string

record ProxyConfig =
  Name :: string
  Type :: string
  ListenAddr :: string
  TargetAddr :: string
  Timeout :: int
  TLS :: "TLSFiles option"
  Filters :: "string list"
  FilterSettings :: FilterSettings

text \<open>
  \<^verbatim>\<open>filters.Filter\<close>: \<^verbatim>\<open>Prepare(e, logger) error\<close> and
  \<^verbatim>\<open>Apply(e, logger) (bool, error)\<close>. An error is \<open>Some\<close>/\<open>Inl\<close>. Both
  calls are taken to return.
\<close>

record 'e Filter =
  Prepare :: "'e \<Rightarrow> error option"
  Apply :: "'e \<Rightarrow> error + bool"

text \<open>
  \<^verbatim>\<open>filters.FilterSet\<close> with its \<^verbatim>\<open>Get(name) (Filter, bool)\<close>: a name that is not
  registered yields the nil filter and \<^verbatim>\<open>false\<close>, here \<open>None\<close>.
\<close>

type_synonym 'e FilterSet = "string \<rightharpoonup> 'e Filter"

definition Get :: "'e FilterSet \<Rightarrow> string \<Rightarrow> 'e Filter option" where
  "Get fs f = fs f"

text \<open>
  \<^verbatim>\<open>database.DB\<close>, the verdict store, as the three operations the engine calls on it.
  \<open>'d\<close> is the content of the store; every operation may change it and may fail.
  \<^verbatim>\<open>GetVerdict\<close> returns either an error or a verdict record.
\<close>

record 'd DB =
  GetVerdict :: "string \<Rightarrow> 'd \<Rightarrow> (error + Verdict) \<times> 'd"
  IncAccepts :: "string \<Rightarrow> 'd \<Rightarrow> error option \<times> 'd"
  IncRejects :: "string \<Rightarrow> 'd \<Rightarrow> error option \<times> 'd"

text \<open>The certificate loaded by \<^verbatim>\<open>tls.LoadX509KeyPair\<close>, kept opaque.\<close>

type_synonym Certificate = string

record TLSConfig =
  Certificates :: "Certificate list"
  InsecureSkipVerify :: bool

record ('d, 'e) Proxy =
  Config :: ProxyConfig
  TLSConfig :: "TLSConfig option"
  Closing :: bool
  db :: "'d DB"
  filters :: "'e FilterSet"

section \<open>Observable effects\<close>

text \<open>
  Everything the calling goroutine does besides computing its result is recorded, in
  order, in a trace: the calls into the verdict store, the launch of a prepare worker
  (the \<^verbatim>\<open>go\<close> statement), the calls of \<^verbatim>\<open>Lock\<close> and the deferred \<^verbatim>\<open>Unlock\<close>
  on the per-index mutexes, the calls of \<^verbatim>\<open>Apply\<close>, and the log lines.
\<close>

datatype logline =
    CantGetCachedVerdict
  | RejectedPermanently
  | FilterErrorSkipping
  | Filtered
  | CantIncreaseRejects
  | CantIncreaseAccepts
  | PrepareErrorSkipping

datatype event =
    EvGetVerdict string
  | EvGo nat string
  | EvLock nat
  | EvUnlock nat
  | EvApply nat string
  | EvIncRejects string
  | EvIncAccepts string
  | EvLog logline

record 'd world =
  store :: 'd
  trace :: "event list"

definition emit :: "event \<Rightarrow> 'd world \<Rightarrow> 'd world" where
  "emit ev w = w\<lparr>trace := trace w @ [ev]\<rparr>"

text \<open>One call into the store: the store changes, the call is recorded.\<close>

definition call_db :: "('d \<Rightarrow> 'r \<times> 'd) \<Rightarrow> event \<Rightarrow> 'd world \<Rightarrow> 'r \<times> 'd world" where
  "call_db opn ev w =
     (fst (opn (store w)), \<lparr>store = snd (opn (store w)), trace = trace w @ [ev]\<rparr>)"

section \<open>The threshold check\<close>

definition zero_verdict :: Verdict where
  "zero_verdict = \<lparr>Accepts = 0, Rejects = 0\<rparr>"

text \<open>
  The \<^verbatim>\<open>switch\<close> of \<^verbatim>\<open>isRejectedByThreshold\<close> on a verdict record: the first case
  has an empty body and leaves the switch, the second returns \<^verbatim>\<open>true\<close>.
\<close>

datatype threshold_case = NoReject | Reject | Default

definition threshold_switch :: "FilterSettings \<Rightarrow> Verdict \<Rightarrow> threshold_case" where
  "threshold_switch s v =
     (if NoRejectThreshold s > 0 \<and> Accepts v \<ge> NoRejectThreshold s then NoReject
      else if RejectThreshold s > 0 \<and> Rejects v \<ge> RejectThreshold s then Reject
      else Default)"

definition isRejectedByThreshold ::
  "('d, 'e) Proxy \<Rightarrow> string \<Rightarrow> 'd world \<Rightarrow> bool \<times> 'd world" where
  "isRejectedByThreshold p ip w =
     (case call_db (GetVerdict (db p) ip) (EvGetVerdict ip) w of (r, w1) \<Rightarrow>
        (case (case r of Inl err \<Rightarrow> (zero_verdict, emit (EvLog CantGetCachedVerdict) w1)
                       | Inr v \<Rightarrow> (v, w1)) of (v, w2) \<Rightarrow>
           (case threshold_switch (FilterSettings (Config p)) v of
              NoReject \<Rightarrow> (False, w2)
            | Reject \<Rightarrow> (True, emit (EvLog RejectedPermanently) w2)
            | Default \<Rightarrow> (False, w2))))"

section \<open>Launching the prepare workers\<close>

text \<open>
  \<^verbatim>\<open>prepareFilters\<close> allocates one mutex per configured filter and starts one
  goroutine per filter; it returns without waiting for any of them. For the calling
  goroutine the effect is the sequence of \<^verbatim>\<open>go\<close> statements. What the workers do,
  and when, is the subject of the interleaving model further down.
\<close>

definition prepareFilters :: "('d, 'e) Proxy \<Rightarrow> 'e \<Rightarrow> 'd world \<Rightarrow> 'd world" where
  "prepareFilters p e w =
     w\<lparr>trace := trace w @ map (\<lambda>(i, f). EvGo i f) (enumerate 0 (Filters (Config p)))\<rparr>"

section \<open>The apply loop and \<^verbatim>\<open>RunFilters\<close>\<close>

text \<open>
  The loop of \<^verbatim>\<open>RunFilters\<close> from index \<open>i\<close> on, followed by the code after the
  loop. The \<^verbatim>\<open>Unlock\<close> deferred in iteration \<open>i\<close> runs when the function
  leaves, after everything that follows iteration \<open>i\<close>, also when it leaves by a panic:
  a method call on the nil filter that \<^verbatim>\<open>Get\<close> returns for an unknown name.
  \<^verbatim>\<open>mg[i].Lock()\<close> is taken to return: a prepare worker that holds the mutex
  releases it when its \<^verbatim>\<open>Prepare\<close> returns. That the result does not depend on
  how the workers are scheduled is shown for the interleaving model below.
\<close>

fun RunFilters_loop ::
  "('d, 'e) Proxy \<Rightarrow> 'e \<Rightarrow> string \<Rightarrow> nat \<Rightarrow> string list \<Rightarrow> 'd world
     \<Rightarrow> (panic + bool) \<times> 'd world" where
  "RunFilters_loop p e ip i [] w =
     (case call_db (IncAccepts (db p) ip) (EvIncAccepts ip) w of (err, w1) \<Rightarrow>
        (Inr True, (case err of None \<Rightarrow> w1 | Some x \<Rightarrow> emit (EvLog CantIncreaseAccepts) w1)))"
| "RunFilters_loop p e ip i (f # fs) w =
     (case
        (case Get (filters p) f of
           None \<Rightarrow> (Inl NilDereference, emit (EvLock i) w)
         | Some flt \<Rightarrow>
             (case Apply flt e of
                Inl err \<Rightarrow>
                  RunFilters_loop p e ip (Suc i) fs
                    (emit (EvLog FilterErrorSkipping) (emit (EvApply i f) (emit (EvLock i) w)))
              | Inr filtered \<Rightarrow>
                  if filtered then
                    (case call_db (IncRejects (db p) ip) (EvIncRejects ip)
                            (emit (EvLog Filtered) (emit (EvApply i f) (emit (EvLock i) w)))
                     of (err, w1) \<Rightarrow>
                       (Inr False,
                        (case err of None \<Rightarrow> w1
                                   | Some x \<Rightarrow> emit (EvLog CantIncreaseRejects) w1)))
                  else RunFilters_loop p e ip (Suc i) fs (emit (EvApply i f) (emit (EvLock i) w))))
      of (res, w') \<Rightarrow> (res, emit (EvUnlock i) w'))"

text \<open>
  \<^verbatim>\<open>RunFilters\<close>. The entity is an interface value; \<open>getIP\<close> is its
  \<^verbatim>\<open>GetIP\<close> method followed by \<^verbatim>\<open>String()\<close>, which either yields the identity or
  panics. Nothing in \<^verbatim>\<open>RunFilters\<close> recovers from a panic.
\<close>

definition RunFilters ::
  "('e \<Rightarrow> panic + string) \<Rightarrow> ('d, 'e) Proxy \<Rightarrow> 'e \<Rightarrow> 'd world
     \<Rightarrow> (panic + bool) \<times> 'd world" where
  "RunFilters getIP p e w =
     (case getIP e of
        Inl pn \<Rightarrow> (Inl pn, w)
      | Inr ip \<Rightarrow>
          (case isRejectedByThreshold p ip w of (rejected, w1) \<Rightarrow>
             if rejected then (Inr False, w1)
             else RunFilters_loop p e ip 0 (Filters (Config p)) (prepareFilters p e w1)))"

section \<open>Construction of a proxy\<close>

text \<open>
  \<^verbatim>\<open>defaultTimeout = time.Second * 10\<close>, a \<^verbatim>\<open>time.Duration\<close> in nanoseconds.
\<close>

definition defaultTimeout :: int where
  "defaultTimeout = 1000000000 * 10"

text \<open>
  The loop of \<^verbatim>\<open>NewBaseProxy\<close> over \<^verbatim>\<open>cfg.Filters\<close>: it returns at the first
  name the registry does not know.
\<close>

fun checkFilters :: "'e FilterSet \<Rightarrow> string \<Rightarrow> string list \<Rightarrow> error option" where
  "checkFilters fs name [] = None"
| "checkFilters fs name (f # rest) =
     (case Get fs f of
        None \<Rightarrow> Some (CantFindFilter f name)
      | Some flt \<Rightarrow> checkFilters fs name rest)"

text \<open>
  \<^verbatim>\<open>NewBaseProxy\<close>. \<^verbatim>\<open>verifyAction\<close> is declared in another file of the
  package, and \<^verbatim>\<open>tls.LoadX509KeyPair\<close> reads the file system: both are parameters.
  The debug line about the default timeout is left out.
\<close>

definition NewBaseProxy ::
  "(string \<Rightarrow> string list \<Rightarrow> error option) \<Rightarrow> (string \<Rightarrow> string \<Rightarrow> error + Certificate)
     \<Rightarrow> ProxyConfig \<Rightarrow> 'e FilterSet \<Rightarrow> 'd DB \<Rightarrow> string list \<Rightarrow> error + ('d, 'e) Proxy" where
  "NewBaseProxy verifyAction LoadX509KeyPair cfg fs d actions =
     (case verifyAction (Action (FilterSettings cfg)) actions of
        Some err \<Rightarrow> Inl err
      | None \<Rightarrow>
          (case checkFilters fs (Name cfg) (Filters cfg) of
             Some err \<Rightarrow> Inl err
           | None \<Rightarrow>
               (case (if Timeout cfg = 0 then cfg\<lparr>Timeout := defaultTimeout\<rparr> else cfg) of cfg' \<Rightarrow>
                  (case TLS cfg' of
                     None \<Rightarrow>
                       Inr \<lparr>Config = cfg', TLSConfig = None, Closing = False,
                            db = d, filters = fs\<rparr>
                   | Some t \<Rightarrow>
                       (case LoadX509KeyPair (Cert t) (Key t) of
                          Inl err \<Rightarrow> Inl (CantLoadTLSConfig err)
                        | Inr cert \<Rightarrow>
                            Inr \<lparr>Config = cfg',
                                 TLSConfig =
                                   Some \<lparr>Certificates = [cert], InsecureSkipVerify = True\<rparr>,
                                 Closing = False, db = d, filters = fs\<rparr>)))))"

section \<open>The HTTP entity\<close>

text \<open>
  \<^verbatim>\<open>HTTPRequest\<close> wraps a \<^verbatim>\<open>*http.Request\<close>; its methods have value receivers
  but change the request behind the pointer, so each of them returns the request it
  leaves.
\<close>

type_synonym byte = "8 word"

text \<open>
  Modelled from the spec: \<^verbatim>\<open>BodyReader\<close>, the reader of the repository that the
  body of a request is expected to be wrapped with; its declaration is not in the sources.
  It holds the whole body and a read offset. Closing it resets it to the unread state
  (\<^verbatim>\<open>resetBody\<close> resets the body by calling \<^verbatim>\<open>Close\<close>), and neither reading nor
  closing it fails.

  The other constructor is any \<^verbatim>\<open>io.ReadCloser\<close> that the standard library hands
  out: in \<open>Stream d re ce\<close>, \<open>d\<close> are the bytes still to be read, \<open>re\<close> is the
  error that ends the reading in place of the end of the input, and \<open>ce\<close> is the error
  of \<^verbatim>\<open>Close\<close>; closing it does not bring back what was read.
\<close>

datatype ReadCloser =
    BodyReader "byte list" nat
  | Stream "byte list" "error option" "error option"

text \<open>\<^verbatim>\<open>io.ReadAll\<close>: what is left to read, or the error of the reader.\<close>

fun ReadAll :: "ReadCloser \<Rightarrow> (error + byte list) \<times> ReadCloser" where
  "ReadAll (BodyReader c pos) = (Inr (drop pos c), BodyReader c (max pos (length c)))"
| "ReadAll (Stream d re ce) =
     ((case re of None \<Rightarrow> Inr d | Some err \<Rightarrow> Inl err), Stream [] re ce)"

fun Close :: "ReadCloser \<Rightarrow> error option \<times> ReadCloser" where
  "Close (BodyReader c pos) = (None, BodyReader c 0)"
| "Close (Stream d re ce) = (ce, Stream d re ce)"

text \<open>
  Modelled from the spec: \<^verbatim>\<open>WrapHTTPBody\<close>, which is not in the sources.
  It yields a fresh, unread equivalent of the reader it is given: it reads the reader to
  its end, closes it, and returns a \<^verbatim>\<open>BodyReader\<close> over the bytes read. The second
  component is the reader it was given, as it is left.
\<close>

definition WrapHTTPBody :: "ReadCloser \<Rightarrow> (error + ReadCloser) \<times> ReadCloser" where
  "WrapHTTPBody b =
     (case ReadAll b of
        (Inl err, b1) \<Rightarrow> (Inl err, b1)
      | (Inr buf, b1) \<Rightarrow>
          (case Close b1 of
             (Some err, b2) \<Rightarrow> (Inl err, b2)
           | (None, b2) \<Rightarrow> (Inr (BodyReader buf 0), b2)))"

record http_Request =
  RemoteAddr :: string
  Method :: string
  URL :: string
  Header :: "(string \<times> string list) list"
  Body :: ReadCloser

record HTTPRequest =
  Request :: http_Request

text \<open>
  \<^verbatim>\<open>httputil.DumpRequest(req, true)\<close> of the standard library: it drains the body
  (reads it to its end and closes it), writes the request with the drained bytes as body,
  and leaves a new reader over the same bytes in \<^verbatim>\<open>req.Body\<close>; when draining fails
  the request keeps the reader as it is left. The wire form of a request with given body
  bytes is the parameter \<open>wire\<close>. The body of a request the server hands over is
  never nil.
\<close>

definition DumpRequest ::
  "(http_Request \<Rightarrow> byte list \<Rightarrow> byte list) \<Rightarrow> http_Request
     \<Rightarrow> (error + byte list) \<times> http_Request" where
  "DumpRequest wire req =
     (case ReadAll (Body req) of
        (Inl err, b1) \<Rightarrow> (Inl err, req\<lparr>Body := b1\<rparr>)
      | (Inr buf, b1) \<Rightarrow>
          (case Close b1 of
             (Some err, b2) \<Rightarrow> (Inl err, req\<lparr>Body := b2\<rparr>)
           | (None, b2) \<Rightarrow> (Inr (wire req buf), req\<lparr>Body := Stream buf None None\<rparr>)))"

text \<open>
  \<^verbatim>\<open>netip.ParseAddrPort\<close> of the standard library. Its first check is modelled: a
  string without a colon is rejected as "not an ip:port". What it does with any other
  string is the parameter \<open>rest\<close>. \<^verbatim>\<open>MustParseAddrPort\<close> panics on an error.
\<close>

record AddrPort =
  Addr :: string
  Port :: nat

definition ParseAddrPort :: "(string \<Rightarrow> error + AddrPort) \<Rightarrow> string \<Rightarrow> error + AddrPort" where
  "ParseAddrPort rest s = (if CHR '':'' \<in> set s then rest s else Inl (Err ''not an ip:port''))"

definition MustParseAddrPort :: "(string \<Rightarrow> error + AddrPort) \<Rightarrow> string \<Rightarrow> panic + AddrPort" where
  "MustParseAddrPort rest s =
     (case ParseAddrPort rest s of Inl err \<Rightarrow> Inl (MustParse err) | Inr ap \<Rightarrow> Inr ap)"

text \<open>\<^verbatim>\<open>GetIP\<close>, followed by the \<^verbatim>\<open>String()\<close> that \<^verbatim>\<open>RunFilters\<close> applies.\<close>

definition HTTPRequest_GetIP :: "(string \<Rightarrow> error + AddrPort) \<Rightarrow> HTTPRequest \<Rightarrow> panic + string" where
  "HTTPRequest_GetIP rest r =
     (case MustParseAddrPort rest (RemoteAddr (Request r)) of
        Inl pn \<Rightarrow> Inl pn
      | Inr ap \<Rightarrow> Inr (Addr ap))"

definition HTTPRequest_GetRaw ::
  "(http_Request \<Rightarrow> byte list \<Rightarrow> byte list) \<Rightarrow> HTTPRequest
     \<Rightarrow> (error + byte list) \<times> HTTPRequest" where
  "HTTPRequest_GetRaw wire r =
     (case WrapHTTPBody (Body (Request r)) of
        (Inl err, b1) \<Rightarrow> (Inl (CantCreateBodyReader err), r\<lparr>Request := (Request r)\<lparr>Body := b1\<rparr>\<rparr>)
      | (Inr body, b1) \<Rightarrow>
          (case DumpRequest wire ((Request r)\<lparr>Body := b1\<rparr>) of
             (Inl err, req) \<Rightarrow> (Inl (CantDumpRequest err), r\<lparr>Request := req\<lparr>Body := body\<rparr>\<rparr>)
           | (Inr buf, req) \<Rightarrow> (Inr buf, r\<lparr>Request := req\<lparr>Body := body\<rparr>\<rparr>)))"

text \<open>\<^verbatim>\<open>resetBody\<close>: the error of \<^verbatim>\<open>Close\<close> is logged and dropped.\<close>

definition HTTPRequest_resetBody :: "HTTPRequest \<Rightarrow> HTTPRequest" where
  "HTTPRequest_resetBody r = r\<lparr>Request := (Request r)\<lparr>Body := snd (Close (Body (Request r)))\<rparr>\<rparr>"

text \<open>\<^verbatim>\<open>GetBody\<close>: the deferred \<^verbatim>\<open>resetBody\<close> runs on both ways out.\<close>

definition HTTPRequest_GetBody :: "HTTPRequest \<Rightarrow> (error + byte list) \<times> HTTPRequest" where
  "HTTPRequest_GetBody r =
     (case ReadAll (Body (Request r)) of
        (Inl err, b1) \<Rightarrow>
          (Inl (CantReadBody err), HTTPRequest_resetBody (r\<lparr>Request := (Request r)\<lparr>Body := b1\<rparr>\<rparr>))
      | (Inr buf, b1) \<Rightarrow>
          (Inr buf, HTTPRequest_resetBody (r\<lparr>Request := (Request r)\<lparr>Body := b1\<rparr>\<rparr>)))"

text \<open>The body is wrapped, and unread: what the type documents as expected.\<close>

fun wrapped :: "ReadCloser \<Rightarrow> bool" where
  "wrapped (BodyReader c pos) = (pos = 0)"
| "wrapped (Stream d re ce) = False"

fun content :: "ReadCloser \<Rightarrow> byte list" where
  "content (BodyReader c pos) = c"
| "content (Stream d re ce) = d"

section \<open>The prepare workers and the apply loop, interleaved\<close>

text \<open>
  The body of the goroutine that \<^verbatim>\<open>prepareFilters\<close> starts for the filter named
  \<open>ff\<close>, between its \<^verbatim>\<open>Lock\<close> and its deferred \<^verbatim>\<open>Unlock\<close>: the registry
  lookup, the call of \<^verbatim>\<open>Prepare\<close> and the log line for its error. A method call on
  the nil filter panics.
\<close>

definition prepare_worker :: "('d, 'e) Proxy \<Rightarrow> 'e \<Rightarrow> string \<Rightarrow> panic + logline list" where
  "prepare_worker p e ff =
     (case Get (filters p) ff of
        None \<Rightarrow> Inl NilDereference
      | Some flt \<Rightarrow>
          (case Prepare flt e of None \<Rightarrow> Inr [] | Some err \<Rightarrow> Inr [PrepareErrorSkipping]))"

text \<open>
  \<^verbatim>\<open>RunFilters\<close> from its call of \<^verbatim>\<open>prepareFilters\<close> on, as a system of
  threads: the calling goroutine and one worker per filter, which share the mutexes
  \<^verbatim>\<open>mg\<close>. A thread takes one step at a time, and the scheduler picks the thread; a
  thread that waits for a locked mutex, has not been started or has finished cannot step.
  A call of \<^verbatim>\<open>Prepare\<close> or \<^verbatim>\<open>Apply\<close> takes two steps, the call and the return, so
  that other threads can run in between. The store and the log are left out.
\<close>

datatype tid = Main | Worker nat

datatype action =
    Go nat
  | Lock nat
  | Unlock nat
  | PrepareCall nat
  | PrepareReturn nat
  | ApplyCall nat
  | ApplyReturn nat
  | IncRejectsCall
  | IncAcceptsCall
  | Panics
  | Return "panic + bool"

text \<open>
  Where the calling goroutine stands: in the loop of \<^verbatim>\<open>prepareFilters\<close> before
  the \<^verbatim>\<open>go\<close> statement of an index; in the loop of \<^verbatim>\<open>RunFilters\<close> before the
  \<^verbatim>\<open>Lock\<close> of an index, holding that mutex before the call of \<^verbatim>\<open>Apply\<close>, or
  inside \<^verbatim>\<open>Apply\<close>; leaving with a result and so many deferred \<^verbatim>\<open>Unlock\<close> calls
  still to run; or gone.
\<close>

datatype mpc =
    MSpawn nat
  | MLoop nat
  | MHolding nat
  | MInApply nat
  | MDefer "panic + bool" nat
  | MDone "panic + bool"

text \<open>
  Where a worker stands: not started; started, before its \<^verbatim>\<open>Lock\<close>; holding the
  mutex before the call of \<^verbatim>\<open>Prepare\<close>; inside \<^verbatim>\<open>Prepare\<close>; back from it, before
  the deferred \<^verbatim>\<open>Unlock\<close>; done.
\<close>

datatype wpc = WNotStarted | WReady | WHolding | WInPrepare | WPrepared | WDone

record sched =
  mutexes :: "bool list"
  mainpc :: mpc
  workerpcs :: "wpc list"
  crashed :: bool
  history :: "(tid \<times> action) list"

definition did :: "tid \<Rightarrow> action list \<Rightarrow> sched \<Rightarrow> sched" where
  "did t as s = s\<lparr>history := history s @ map (Pair t) as\<rparr>"

definition main_step :: "('d, 'e) Proxy \<Rightarrow> 'e \<Rightarrow> sched \<Rightarrow> sched option" where
  "main_step p e s =
     (case mainpc s of
        MSpawn k \<Rightarrow>
          if k < length (Filters (Config p))
          then Some (did Main [Go k]
                 (s\<lparr>workerpcs := (workerpcs s)[k := WReady], mainpc := MSpawn (Suc k)\<rparr>))
          else Some (s\<lparr>mainpc := MLoop 0\<rparr>)
      | MLoop i \<Rightarrow>
          if i < length (Filters (Config p))
          then (if mutexes s ! i then None
                else Some (did Main [Lock i]
                       (s\<lparr>mutexes := (mutexes s)[i := True], mainpc := MHolding i\<rparr>)))
          else Some (did Main [IncAcceptsCall] (s\<lparr>mainpc := MDefer (Inr True) i\<rparr>))
      | MHolding i \<Rightarrow>
          if i < length (Filters (Config p))
          then (case Get (filters p) (Filters (Config p) ! i) of
                  None \<Rightarrow>
                    Some (did Main [Panics] (s\<lparr>mainpc := MDefer (Inl NilDereference) (Suc i)\<rparr>))
                | Some flt \<Rightarrow> Some (did Main [ApplyCall i] (s\<lparr>mainpc := MInApply i\<rparr>)))
          else None
      | MInApply i \<Rightarrow>
          if i < length (Filters (Config p))
          then (case Get (filters p) (Filters (Config p) ! i) of
                  None \<Rightarrow> None
                | Some flt \<Rightarrow>
                    (case Apply flt e of
                       Inl err \<Rightarrow> Some (did Main [ApplyReturn i] (s\<lparr>mainpc := MLoop (Suc i)\<rparr>))
                     | Inr filtered \<Rightarrow>
                         if filtered
                         then Some (did Main [ApplyReturn i, IncRejectsCall]
                                (s\<lparr>mainpc := MDefer (Inr False) (Suc i)\<rparr>))
                         else Some (did Main [ApplyReturn i] (s\<lparr>mainpc := MLoop (Suc i)\<rparr>))))
          else None
      | MDefer r k \<Rightarrow>
          (case k of
             0 \<Rightarrow> Some (did Main [Return r] (s\<lparr>mainpc := MDone r\<rparr>))
           | Suc j \<Rightarrow>
               Some (did Main [Unlock j]
                 (s\<lparr>mutexes := (mutexes s)[j := False], mainpc := MDefer r j\<rparr>)))
      | MDone r \<Rightarrow> None)"

text \<open>
  A panic in a worker runs its deferred \<^verbatim>\<open>Unlock\<close> and then ends the program.
\<close>

definition worker_step :: "('d, 'e) Proxy \<Rightarrow> 'e \<Rightarrow> nat \<Rightarrow> sched \<Rightarrow> sched option" where
  "worker_step p e i s =
     (if i < length (Filters (Config p)) \<and> i < length (workerpcs s)
      then (case workerpcs s ! i of
              WNotStarted \<Rightarrow> None
            | WReady \<Rightarrow>
                if mutexes s ! i then None
                else Some (did (Worker i) [Lock i]
                       (s\<lparr>mutexes := (mutexes s)[i := True],
                          workerpcs := (workerpcs s)[i := WHolding]\<rparr>))
            | WHolding \<Rightarrow>
                (case prepare_worker p e (Filters (Config p) ! i) of
                   Inl pn \<Rightarrow>
                     Some (did (Worker i) [Panics, Unlock i]
                       (s\<lparr>mutexes := (mutexes s)[i := False],
                          workerpcs := (workerpcs s)[i := WDone], crashed := True\<rparr>))
                 | Inr ls \<Rightarrow>
                     Some (did (Worker i) [PrepareCall i]
                       (s\<lparr>workerpcs := (workerpcs s)[i := WInPrepare]\<rparr>)))
            | WInPrepare \<Rightarrow>
                Some (did (Worker i) [PrepareReturn i] (s\<lparr>workerpcs := (workerpcs s)[i := WPrepared]\<rparr>))
            | WPrepared \<Rightarrow>
                Some (did (Worker i) [Unlock i]
                  (s\<lparr>mutexes := (mutexes s)[i := False], workerpcs := (workerpcs s)[i := WDone]\<rparr>))
            | WDone \<Rightarrow> None)
      else None)"

fun step :: "('d, 'e) Proxy \<Rightarrow> 'e \<Rightarrow> tid \<Rightarrow> sched \<Rightarrow> sched option" where
  "step p e Main s = (if crashed s then None else main_step p e s)"
| "step p e (Worker i) s = (if crashed s then None else worker_step p e i s)"

text \<open>A run under a schedule; \<open>None\<close> when the schedule picks a thread that cannot step.\<close>

fun run :: "('d, 'e) Proxy \<Rightarrow> 'e \<Rightarrow> tid list \<Rightarrow> sched \<Rightarrow> sched option" where
  "run p e [] s = Some s"
| "run p e (t # ts) s = (case step p e t s of None \<Rightarrow> None | Some s' \<Rightarrow> run p e ts s')"

text \<open>\<^verbatim>\<open>make([]sync.Mutex, len(p.Config.Filters))\<close>: every mutex unlocked.\<close>

definition start :: "('d, 'e) Proxy \<Rightarrow> sched" where
  "start p =
     \<lparr>mutexes = replicate (length (Filters (Config p))) False, mainpc = MSpawn 0,
      workerpcs = replicate (length (Filters (Config p))) WNotStarted, crashed = False,
      history = []\<rparr>"

text \<open>Which thread holds the mutex of index \<open>i\<close>, read off the places of the threads.\<close>

fun worker_holds :: "wpc \<Rightarrow> bool" where
  "worker_holds WHolding = True"
| "worker_holds WInPrepare = True"
| "worker_holds WPrepared = True"
| "worker_holds pc = False"

fun main_holds :: "mpc \<Rightarrow> nat \<Rightarrow> bool" where
  "main_holds (MSpawn k) i = False"
| "main_holds (MLoop j) i = (i < j)"
| "main_holds (MHolding j) i = (i \<le> j)"
| "main_holds (MInApply j) i = (i \<le> j)"
| "main_holds (MDefer r k) i = (i < k)"
| "main_holds (MDone r) i = False"

fun main_within :: "nat \<Rightarrow> mpc \<Rightarrow> bool" where
  "main_within n (MSpawn k) = (k \<le> n)"
| "main_within n (MLoop j) = (j \<le> n)"
| "main_within n (MHolding j) = (j < n)"
| "main_within n (MInApply j) = (j < n)"
| "main_within n (MDefer r k) = (k \<le> n)"
| "main_within n (MDone r) = True"

text \<open>A worker of an index that \<^verbatim>\<open>prepareFilters\<close> has not reached is not started.\<close>

fun spawned :: "mpc \<Rightarrow> nat \<Rightarrow> wpc \<Rightarrow> bool" where
  "spawned (MSpawn k) i pc = (i < k \<or> pc = WNotStarted)"
| "spawned m i pc = True"

definition consistent :: "nat \<Rightarrow> sched \<Rightarrow> bool" where
  "consistent n s =
     (length (mutexes s) = n \<and> length (workerpcs s) = n \<and> main_within n (mainpc s) \<and>
      (\<forall>i<n. mutexes s ! i = (worker_holds (workerpcs s ! i) \<or> main_holds (mainpc s) i)) \<and>
      (\<forall>i<n. \<not> (worker_holds (workerpcs s ! i) \<and> main_holds (mainpc s) i)) \<and>
      (\<forall>i<n. spawned (mainpc s) i (workerpcs s ! i)))"

text \<open>
  The result of the apply loop on a chain, without its effects; and what the place of
  the calling goroutine says about the result of the whole chain \<open>fs\<close>: at index
  \<open>i\<close> of the loop the result is the one of the rest of the chain, and on the way out
  it is the result the goroutine carries.
\<close>

fun chain_result :: "('d, 'e) Proxy \<Rightarrow> 'e \<Rightarrow> string list \<Rightarrow> panic + bool" where
  "chain_result p e [] = Inr True"
| "chain_result p e (f # fs) =
     (case Get (filters p) f of
        None \<Rightarrow> Inl NilDereference
      | Some flt \<Rightarrow>
          (case Apply flt e of
             Inl err \<Rightarrow> chain_result p e fs
           | Inr filtered \<Rightarrow> if filtered then Inr False else chain_result p e fs))"

fun on_course :: "('d, 'e) Proxy \<Rightarrow> 'e \<Rightarrow> string list \<Rightarrow> mpc \<Rightarrow> bool" where
  "on_course p e fs (MSpawn k) = True"
| "on_course p e fs (MLoop i) = (i \<le> length fs \<and> chain_result p e (drop i fs) = chain_result p e fs)"
| "on_course p e fs (MHolding i) = (i < length fs \<and> chain_result p e (drop i fs) = chain_result p e fs)"
| "on_course p e fs (MInApply i) = (i < length fs \<and> chain_result p e (drop i fs) = chain_result p e fs)"
| "on_course p e fs (MDefer r k) = (r = chain_result p e fs)"
| "on_course p e fs (MDone r) = (r = chain_result p e fs)"

section \<open>Reading a trace\<close>

text \<open>
  A filter is invoked by an event of the first kind (a worker that will call
  \<^verbatim>\<open>Prepare\<close> is launched, or \<^verbatim>\<open>Apply\<close> is called); a counter is incremented by
  an event of the second kind.
\<close>

fun is_filter_call :: "event \<Rightarrow> bool" where
  "is_filter_call (EvGo i f) = True"
| "is_filter_call (EvApply i f) = True"
| "is_filter_call ev = False"

fun is_apply :: "event \<Rightarrow> bool" where
  "is_apply (EvApply i f) = True"
| "is_apply ev = False"

fun is_increment :: "event \<Rightarrow> bool" where
  "is_increment (EvIncRejects ip) = True"
| "is_increment (EvIncAccepts ip) = True"
| "is_increment ev = False"

text \<open>What the named filter does with the entity.\<close>

definition resolves :: "('d, 'e) Proxy \<Rightarrow> string \<Rightarrow> bool" where
  "resolves p f = (Get (filters p) f \<noteq> None)"

definition signals :: "('d, 'e) Proxy \<Rightarrow> 'e \<Rightarrow> string \<Rightarrow> bool" where
  "signals p e f =
     (case Get (filters p) f of None \<Rightarrow> False | Some flt \<Rightarrow> Apply flt e = Inr True)"

definition errors :: "('d, 'e) Proxy \<Rightarrow> 'e \<Rightarrow> string \<Rightarrow> bool" where
  "errors p e f =
     (case Get (filters p) f of None \<Rightarrow> False | Some flt \<Rightarrow> isl (Apply flt e))"

fun is_go :: "event \<Rightarrow> bool" where
  "is_go (EvGo i f) = True"
| "is_go ev = False"

text \<open>
  The filters of a chain that the loop applies: those up to and including the first one
  that signals filtered.
\<close>

fun applied :: "('d, 'e) Proxy \<Rightarrow> 'e \<Rightarrow> string list \<Rightarrow> string list" where
  "applied p e [] = []"
| "applied p e (f # fs) = f # (if signals p e f then [] else applied p e fs)"

text \<open>
  The verdict record the threshold check works with: the one the store returns, or the
  zero-valued record when the lookup fails.
\<close>

definition looked_up :: "('d, 'e) Proxy \<Rightarrow> string \<Rightarrow> 'd world \<Rightarrow> Verdict" where
  "looked_up p ip w =
     (case fst (GetVerdict (db p) ip (store w)) of Inl err \<Rightarrow> zero_verdict | Inr v \<Rightarrow> v)"

section \<open>A concrete configuration\<close>

text \<open>
  Modelled from the spec: a verdict store, in memory. An identity that was never stored
  has the zero-valued record, and an increment adds one to one counter. The newest entry
  of an identity is the first one in the list.
\<close>

type_synonym memstore = "(string \<times> Verdict) list"

definition mem_get :: "memstore \<Rightarrow> string \<Rightarrow> Verdict" where
  "mem_get s ip = (case map_of s ip of None \<Rightarrow> zero_verdict | Some v \<Rightarrow> v)"

definition mem_db :: "memstore DB" where
  "mem_db =
     \<lparr>GetVerdict = (\<lambda>ip s. (Inr (mem_get s ip), s)),
      IncAccepts = (\<lambda>ip s. (None, (ip, (mem_get s ip)\<lparr>Accepts := Accepts (mem_get s ip) + 1\<rparr>) # s)),
      IncRejects = (\<lambda>ip s. (None, (ip, (mem_get s ip)\<lparr>Rejects := Rejects (mem_get s ip) + 1\<rparr>) # s))\<rparr>"

text \<open>A store that is unreachable: every operation fails and nothing is stored.\<close>

definition down_db :: "memstore DB" where
  "down_db =
     \<lparr>GetVerdict = (\<lambda>ip s. (Inl (Err ''unavailable''), s)),
      IncAccepts = (\<lambda>ip s. (Some (Err ''unavailable''), s)),
      IncRejects = (\<lambda>ip s. (Some (Err ''unavailable''), s))\<rparr>"

text \<open>
  A test entity is the address of its peer. Three filters: \<open>geo\<close> filters every
  entity, \<open>ua\<close> lets every entity pass, \<open>ptr\<close> fails on every entity.
\<close>

definition peer_ip :: "string \<Rightarrow> panic + string" where
  "peer_ip a = Inr a"

definition always :: "error + bool \<Rightarrow> string Filter" where
  "always r = \<lparr>Prepare = (\<lambda>e. None), Apply = (\<lambda>e. r)\<rparr>"

definition registry :: "string FilterSet" where
  "registry =
     [''geo'' \<mapsto> always (Inr True), ''ua'' \<mapsto> always (Inr False),
      ''ptr'' \<mapsto> always (Inl (Err ''lookup timed out''))]"

definition config_of :: "string list \<Rightarrow> int \<Rightarrow> int \<Rightarrow> ProxyConfig" where
  "config_of names rt nrt =
     \<lparr>Name = ''web'', Type = ''http'', ListenAddr = ''0.0.0.0:80'',
      TargetAddr = ''10.0.0.2:8080'', Timeout = 0, TLS = None, Filters = names,
      FilterSettings = \<lparr>Action = ''drop'', RejectThreshold = rt, NoRejectThreshold = nrt\<rparr>\<rparr>"

definition proxy_of :: "memstore DB \<Rightarrow> string list \<Rightarrow> int \<Rightarrow> int \<Rightarrow> (memstore, string) Proxy" where
  "proxy_of d names rt nrt =
     \<lparr>Config = (config_of names rt nrt)\<lparr>Timeout := defaultTimeout\<rparr>, TLSConfig = None,
      Closing = False, db = d, filters = registry\<rparr>"

definition world_of :: "memstore \<Rightarrow> memstore world" where
  "world_of s = \<lparr>store = s, trace = []\<rparr>"

text \<open>
  The filter that behaves like the given one, except that where its \<^verbatim>\<open>Apply\<close>
  fails it lets the entity pass; and the proxy in which the filter registered under one
  name is replaced by that filter.
\<close>

definition error_as_pass :: "'e Filter \<Rightarrow> 'e Filter" where
  "error_as_pass flt =
     flt\<lparr>Apply := (\<lambda>e. case Apply flt e of Inl err \<Rightarrow> Inr False | Inr b \<Rightarrow> Inr b)\<rparr>"

definition with_error_as_pass :: "string \<Rightarrow> ('d, 'e) Proxy \<Rightarrow> ('d, 'e) Proxy" where
  "with_error_as_pass g p =
     p\<lparr>filters := (filters p)(g := map_option error_as_pass (filters p g))\<rparr>"

definition passes :: "('d, 'e) Proxy \<Rightarrow> 'e \<Rightarrow> string \<Rightarrow> bool" where
  "passes p e f =
     (case Get (filters p) f of None \<Rightarrow> False | Some flt \<Rightarrow> Apply flt e = Inr False)"

fun is_skip_line :: "event \<Rightarrow> bool" where
  "is_skip_line (EvLog FilterErrorSkipping) = True"
| "is_skip_line ev = False"

text \<open>
  Modelled from the spec: \<^verbatim>\<open>verifyAction\<close>, which is in a file of the package that is
  not in the sources: a configured action outside the supported ones is a configuration error.
  It is used to run \<^verbatim>\<open>NewBaseProxy\<close> on the configurations above, together with a
  key pair loader that finds no file.
\<close>

definition verifyAction :: "string \<Rightarrow> string list \<Rightarrow> error option" where
  "verifyAction a actions = (if a \<in> set actions then None else Some (Err ''unsupported action''))"

definition no_key_pair :: "string \<Rightarrow> string \<Rightarrow> error + Certificate" where
  "no_key_pair c k = Inl (Err ''no such file'')"

text \<open>
  An HTTP request with a wrapped body, and a proxy for HTTP entities with an empty
  chain. For a remote address without a colon \<^verbatim>\<open>ParseAddrPort\<close> does not get to
  its parameter, which the runs below fix to a function that rejects every string.
\<close>

definition request_of :: "string \<Rightarrow> byte list \<Rightarrow> HTTPRequest" where
  "request_of addr buf =
     \<lparr>Request = \<lparr>RemoteAddr = addr, Method = ''POST'', URL = ''/login'', Header = [],
                  Body = BodyReader buf 0\<rparr>\<rparr>"

definition reject_all :: "string \<Rightarrow> error + AddrPort" where
  "reject_all s = Inl (Err ''rejected'')"

definition http_proxy :: "(memstore, HTTPRequest) Proxy" where
  "http_proxy =
     \<lparr>Config = (config_of [] 0 0)\<lparr>Timeout := defaultTimeout\<rparr>, TLSConfig = None,
      Closing = False, db = mem_db, filters = Map.empty\<rparr>"

text \<open>
  A request as the standard library hands it over, its body a plain stream that has not
  been wrapped; and a request whose wrapped body has been read by one byte without a reset.
\<close>

definition unwrapped_request :: "string \<Rightarrow> byte list \<Rightarrow> HTTPRequest" where
  "unwrapped_request addr buf =
     \<lparr>Request = \<lparr>RemoteAddr = addr, Method = ''POST'', URL = ''/login'', Header = [],
                  Body = Stream buf None None\<rparr>\<rparr>"

definition half_read_request :: "string \<Rightarrow> byte list \<Rightarrow> HTTPRequest" where
  "half_read_request addr buf =
     \<lparr>Request = \<lparr>RemoteAddr = addr, Method = ''POST'', URL = ''/login'', Header = [],
                  Body = BodyReader buf 1\<rparr>\<rparr>"

text \<open>A wire form for the runs below: the method, the target, and the body.\<close>

definition bytes_of :: "string \<Rightarrow> byte list" where
  "bytes_of s = map (\<lambda>c. of_nat (of_char c)) s"

definition simple_wire :: "http_Request \<Rightarrow> byte list \<Rightarrow> byte list" where
  "simple_wire req buf = bytes_of (Method req) @ [32] @ bytes_of (URL req) @ [13, 10, 13, 10] @ buf"

section \<open>Properties of the threshold check and of the loop\<close>

lemma emit_simps [simp]: "trace (emit ev w) = trace w @ [ev]" "store (emit ev w) = store w"
  by (simp_all add: emit_def)

lemma call_db_simps [simp]:
  "fst (call_db opn ev w) = fst (opn (store w))"
  "trace (snd (call_db opn ev w)) = trace w @ [ev]"
  "store (snd (call_db opn ev w)) = snd (opn (store w))"
  by (simp_all add: call_db_def)

lemma isRejected_fst:
  "fst (isRejectedByThreshold p ip w) =
     (threshold_switch (FilterSettings (Config p)) (looked_up p ip w) = Reject)"
  by (simp add: isRejectedByThreshold_def looked_up_def call_db_def
      split: sum.splits threshold_case.splits prod.splits)

lemma isRejected_store:
  "store (snd (isRejectedByThreshold p ip w)) = snd (GetVerdict (db p) ip (store w))"
  by (simp add: isRejectedByThreshold_def call_db_def
      split: sum.splits threshold_case.splits prod.splits)

lemma isRejected_trace:
  "filter is_apply (trace (snd (isRejectedByThreshold p ip w))) = filter is_apply (trace w)"
  "filter is_filter_call (trace (snd (isRejectedByThreshold p ip w))) = filter is_filter_call (trace w)"
  "filter is_increment (trace (snd (isRejectedByThreshold p ip w))) = filter is_increment (trace w)"
  by (simp_all add: isRejectedByThreshold_def call_db_def
      split: sum.splits threshold_case.splits prod.splits)


lemma prepare_simps [simp]:
  "store (prepareFilters p e w) = store w"
  "filter is_apply (trace (prepareFilters p e w)) = filter is_apply (trace w)"
  "filter is_increment (trace (prepareFilters p e w)) = filter is_increment (trace w)"
  by (auto simp: prepareFilters_def filter_empty_conv)

lemma loop_pass:
  "list_all (resolves p) fs \<Longrightarrow> \<not> list_ex (signals p e) fs \<Longrightarrow>
   fst (RunFilters_loop p e ip i fs w) = Inr True \<and>
   store (snd (RunFilters_loop p e ip i fs w)) = snd (IncAccepts (db p) ip (store w)) \<and>
   filter is_increment (trace (snd (RunFilters_loop p e ip i fs w))) =
     filter is_increment (trace w) @ [EvIncAccepts ip] \<and>
   filter is_apply (trace (snd (RunFilters_loop p e ip i fs w))) =
     filter is_apply (trace w) @ map (\<lambda>(j, f). EvApply j f) (enumerate i fs)"
proof (induction fs arbitrary: i w)
  case Nil
  show ?case by (simp add: call_db_def split: prod.splits option.splits)
next
  case (Cons f fs)
  from Cons.prems obtain flt where g: "Get (filters p) f = Some flt"
    by (auto simp: resolves_def)
  from Cons.prems g have nf: "Apply flt e \<noteq> Inr True"
    by (simp add: signals_def)
  from Cons.prems have r: "list_all (resolves p) fs" "\<not> list_ex (signals p e) fs"
    by simp_all
  show ?case
  proof (cases "Apply flt e")
    case (Inl err)
    with g Cons.IH [OF r, of "Suc i" "emit (EvLog FilterErrorSkipping) (emit (EvApply i f) (emit (EvLock i) w))"]
    show ?thesis by (simp add: case_prod_beta)
  next
    case (Inr b)
    with nf have "b = False" by simp
    with Inr g Cons.IH [OF r, of "Suc i" "emit (EvApply i f) (emit (EvLock i) w)"]
    show ?thesis by (simp add: case_prod_beta)
  qed
qed


lemma loop_filtered:
  "k < length fs \<Longrightarrow> list_all (resolves p) (take k fs) \<Longrightarrow>
   \<not> list_ex (signals p e) (take k fs) \<Longrightarrow> signals p e (fs ! k) \<Longrightarrow>
   fst (RunFilters_loop p e ip i fs w) = Inr False \<and>
   store (snd (RunFilters_loop p e ip i fs w)) = snd (IncRejects (db p) ip (store w)) \<and>
   filter is_increment (trace (snd (RunFilters_loop p e ip i fs w))) =
     filter is_increment (trace w) @ [EvIncRejects ip] \<and>
   filter is_apply (trace (snd (RunFilters_loop p e ip i fs w))) =
     filter is_apply (trace w) @ map (\<lambda>(j, f). EvApply j f) (enumerate i (take (Suc k) fs))"
proof (induction fs arbitrary: k i w)
  case Nil
  then show ?case by simp
next
  case (Cons f fs)
  show ?case
  proof (cases k)
    case 0
    with Cons.prems obtain flt where "Get (filters p) f = Some flt" "Apply flt e = Inr True"
      by (auto simp: signals_def split: option.splits)
    with 0 show ?thesis
      by (simp add: case_prod_beta call_db_def split: option.splits)
  next
    case (Suc k')
    with Cons.prems obtain flt where g: "Get (filters p) f = Some flt"
      by (auto simp: resolves_def)
    from Cons.prems Suc g have nf: "Apply flt e \<noteq> Inr True"
      by (simp add: signals_def)
    from Cons.prems Suc have r: "k' < length fs" "list_all (resolves p) (take k' fs)"
      "\<not> list_ex (signals p e) (take k' fs)" "signals p e (fs ! k')"
      by simp_all
    show ?thesis
    proof (cases "Apply flt e")
      case (Inl err)
      with g Suc Cons.IH [OF r, of "Suc i" "emit (EvLog FilterErrorSkipping) (emit (EvApply i f) (emit (EvLock i) w))"]
      show ?thesis by (simp add: case_prod_beta)
    next
      case (Inr b)
      with nf have "b = False" by simp
      with Inr g Suc Cons.IH [OF r, of "Suc i" "emit (EvApply i f) (emit (EvLock i) w)"]
      show ?thesis by (simp add: case_prod_beta)
    qed
  qed
qed

lemma loop_result:
  "list_all (resolves p) fs \<Longrightarrow>
   fst (RunFilters_loop p e ip i fs w) = Inr (\<not> list_ex (signals p e) fs)"
proof (induction fs arbitrary: i w)
  case Nil
  show ?case by (simp add: case_prod_beta)
next
  case (Cons f fs)
  from Cons.prems obtain flt where g: "Get (filters p) f = Some flt"
    by (auto simp: resolves_def)
  from Cons.prems have r: "list_all (resolves p) fs" by simp
  show ?case
    using g Cons.IH [OF r]
    by (cases "Apply flt e") (auto simp: case_prod_beta signals_def)
qed


lemma RunFilters_run:
  "getIP e = Inr ip \<Longrightarrow> \<not> fst (isRejectedByThreshold p ip w) \<Longrightarrow>
   RunFilters getIP p e w =
     RunFilters_loop p e ip 0 (Filters (Config p))
       (prepareFilters p e (snd (isRejectedByThreshold p ip w)))"
  by (simp add: RunFilters_def case_prod_beta)

lemma RunFilters_rejected:
  "getIP e = Inr ip \<Longrightarrow> fst (isRejectedByThreshold p ip w) \<Longrightarrow>
   RunFilters getIP p e w = (Inr False, snd (isRejectedByThreshold p ip w))"
  by (simp add: RunFilters_def case_prod_beta)

lemma threshold_switch_Reject:
  "(threshold_switch s v = Reject) =
     (\<not> (NoRejectThreshold s > 0 \<and> Accepts v \<ge> NoRejectThreshold s) \<and>
      RejectThreshold s > 0 \<and> Rejects v \<ge> RejectThreshold s)"
  by (simp add: threshold_switch_def)

lemma list_all_take: "list_all P xs \<Longrightarrow> list_all P (take k xs)"
  by (auto simp: list_all_iff dest: in_set_takeD)

lemma demo_simps:
  "GetVerdict mem_db ip s = (Inr (mem_get s ip), s)"
  "GetVerdict down_db ip s = (Inl (Err ''unavailable''), s)"
  "Config (proxy_of d names rt nrt) = (config_of names rt nrt)\<lparr>Timeout := defaultTimeout\<rparr>"
  "db (proxy_of d names rt nrt) = d"
  "filters (proxy_of d names rt nrt) = registry"
  "store (world_of s) = s"
  "trace (world_of s) = []"
  "Filters (config_of names rt nrt) = names"
  "FilterSettings (config_of names rt nrt) = \<lparr>Action = ''drop'', RejectThreshold = rt, NoRejectThreshold = nrt\<rparr>"
  by (simp_all add: mem_db_def down_db_def proxy_of_def world_of_def config_of_def)

lemma looked_up_allow:
  "0 < NoRejectThreshold s \<Longrightarrow> NoRejectThreshold s \<le> Accepts v \<Longrightarrow> threshold_switch s v = NoReject"
  by (simp add: threshold_switch_def)




lemma RunFilters_returns:
  "getIP e = Inr ip \<Longrightarrow> list_all (resolves p) (Filters (Config p)) \<Longrightarrow>
   \<not> isl (fst (RunFilters getIP p e w))"
  by (simp add: RunFilters_def case_prod_beta loop_result)


lemma error_as_pass_Apply:
  "Apply (error_as_pass flt) e = (case Apply flt e of Inl err \<Rightarrow> Inr False | Inr b \<Rightarrow> Inr b)"
  by (simp add: error_as_pass_def)

lemma loop_error_as_pass:
  assumes rel: "\<And>f. filters p' f = filters p f \<or> filters p' f = map_option error_as_pass (filters p f)"
    and d: "db p' = db p"
  shows "store w' = store w \<Longrightarrow>
     filter (\<lambda>ev. \<not> is_skip_line ev) (trace w') = filter (\<lambda>ev. \<not> is_skip_line ev) (trace w) \<Longrightarrow>
     fst (RunFilters_loop p' e ip i fs w') = fst (RunFilters_loop p e ip i fs w) \<and>
     store (snd (RunFilters_loop p' e ip i fs w')) = store (snd (RunFilters_loop p e ip i fs w)) \<and>
     filter (\<lambda>ev. \<not> is_skip_line ev) (trace (snd (RunFilters_loop p' e ip i fs w'))) =
       filter (\<lambda>ev. \<not> is_skip_line ev) (trace (snd (RunFilters_loop p e ip i fs w)))"
proof (induction fs arbitrary: i w w')
  case Nil
  then show ?case
    by (simp add: d call_db_def case_prod_beta split: option.splits)
next
  case (Cons f fs)
  show ?case
  proof (cases "filters p f")
    case None
    with rel [of f] have "filters p' f = None" by auto
    with None Cons.prems show ?thesis by (simp add: Get_def)
  next
    case (Some flt)
    with rel [of f] consider "filters p' f = Some flt" | "filters p' f = Some (error_as_pass flt)"
      by auto
    then show ?thesis
    proof cases
      case 1
      show ?thesis
      proof (cases "Apply flt e")
        case (Inl err)
        with 1 Some Cons.prems
          Cons.IH [of "emit (EvLog FilterErrorSkipping) (emit (EvApply i f) (emit (EvLock i) w'))"
            "emit (EvLog FilterErrorSkipping) (emit (EvApply i f) (emit (EvLock i) w))" "Suc i"]
        show ?thesis by (simp add: Get_def case_prod_beta)
      next
        case (Inr b)
        with 1 Some Cons.prems
          Cons.IH [of "emit (EvApply i f) (emit (EvLock i) w')"
            "emit (EvApply i f) (emit (EvLock i) w)" "Suc i"]
        show ?thesis
          by (cases b) (simp_all add: Get_def case_prod_beta d call_db_def split: option.splits)
      qed
    next
      case 2
      show ?thesis
      proof (cases "Apply flt e")
        case (Inl err)
        with 2 Some Cons.prems
          Cons.IH [of "emit (EvApply i f) (emit (EvLock i) w')"
            "emit (EvLog FilterErrorSkipping) (emit (EvApply i f) (emit (EvLock i) w))" "Suc i"]
        show ?thesis by (simp add: Get_def case_prod_beta error_as_pass_Apply)
      next
        case (Inr b)
        with 2 Some Cons.prems
          Cons.IH [of "emit (EvApply i f) (emit (EvLock i) w')"
            "emit (EvApply i f) (emit (EvLock i) w)" "Suc i"]
        show ?thesis
          by (cases b) (simp_all add: Get_def case_prod_beta d call_db_def error_as_pass_Apply
              split: option.splits)
      qed
    qed
  qed
qed

lemma with_error_as_pass_simps:
  "db (with_error_as_pass g p) = db p"
  "Config (with_error_as_pass g p) = Config p"
  "filters (with_error_as_pass g p) f = filters p f \<or>
   filters (with_error_as_pass g p) f = map_option error_as_pass (filters p f)"
  by (simp_all add: with_error_as_pass_def)

lemma isRejected_with_error_as_pass:
  "isRejectedByThreshold (with_error_as_pass g p) ip w = isRejectedByThreshold p ip w"
  by (simp add: isRejectedByThreshold_def with_error_as_pass_simps)

lemma prepare_with_error_as_pass:
  "prepareFilters (with_error_as_pass g p) e w = prepareFilters p e w"
  by (simp add: prepareFilters_def with_error_as_pass_simps)

lemma RunFilters_error_as_pass:
  "fst (RunFilters getIP (with_error_as_pass g p) e w) = fst (RunFilters getIP p e w) \<and>
   store (snd (RunFilters getIP (with_error_as_pass g p) e w)) =
     store (snd (RunFilters getIP p e w)) \<and>
   filter (\<lambda>ev. \<not> is_skip_line ev) (trace (snd (RunFilters getIP (with_error_as_pass g p) e w))) =
     filter (\<lambda>ev. \<not> is_skip_line ev) (trace (snd (RunFilters getIP p e w)))"
proof (cases "getIP e")
  case (Inl pn)
  then show ?thesis by (simp add: RunFilters_def)
next
  case (Inr ip)
  show ?thesis
  proof (cases "fst (isRejectedByThreshold p ip w)")
    case True
    with Inr show ?thesis
      by (simp add: RunFilters_rejected isRejected_with_error_as_pass)
  next
    case False
    with Inr show ?thesis
      using loop_error_as_pass [of "with_error_as_pass g p" p
          "prepareFilters p e (snd (isRejectedByThreshold p ip w))"
          "prepareFilters p e (snd (isRejectedByThreshold p ip w))" e ip 0 "Filters (Config p)"]
      by (simp add: RunFilters_run isRejected_with_error_as_pass prepare_with_error_as_pass
          with_error_as_pass_simps)
  qed
qed

lemma list_ex_butlast_last:
  "fs \<noteq> [] \<Longrightarrow> list_ex P fs = (list_ex P (butlast fs) \<or> P (last fs))"
  by (induction fs) auto

lemma list_all_butlast_last:
  "fs \<noteq> [] \<Longrightarrow> list_all P fs = (list_all P (butlast fs) \<and> P (last fs))"
  by (induction fs) auto

lemma last_errors_accepted:
  assumes "getIP e = Inr ip" "\<not> fst (isRejectedByThreshold p ip w)"
    "Filters (Config p) \<noteq> []" "errors p e (last (Filters (Config p)))"
    "list_all (passes p e) (butlast (Filters (Config p)))"
  shows "fst (RunFilters getIP p e w) = Inr True"
proof -
  have a: "passes p e f \<Longrightarrow> resolves p f \<and> \<not> signals p e f" for f
    by (auto simp: passes_def resolves_def signals_def split: option.splits)
  have b: "errors p e f \<Longrightarrow> resolves p f \<and> \<not> signals p e f" for f
    by (auto simp: errors_def resolves_def signals_def split: option.splits)
  from assms(5) a have "list_all (resolves p) (butlast (Filters (Config p)))"
    "\<not> list_ex (signals p e) (butlast (Filters (Config p)))"
    by (auto simp: list_all_iff list_ex_iff)
  with assms(3,4) b have "list_all (resolves p) (Filters (Config p))"
    "\<not> list_ex (signals p e) (Filters (Config p))"
    by (simp_all add: list_all_butlast_last list_ex_butlast_last)
  with assms(1,2) show ?thesis
    by (simp add: RunFilters_run loop_result)
qed

lemma checkFilters_None:
  "checkFilters fs name names = None \<Longrightarrow> list_all (\<lambda>f. Get fs f \<noteq> None) names"
  by (induction names) (auto split: option.splits)

lemma NewBaseProxy_Inr:
  assumes "NewBaseProxy va lk cfg fs d actions = Inr p"
  shows "filters p = fs" "db p = d" "Filters (Config p) = Filters cfg"
    "FilterSettings (Config p) = FilterSettings cfg"
    "checkFilters fs (Name cfg) (Filters cfg) = None"
  using assms
  by (auto simp: NewBaseProxy_def split: option.splits sum.splits if_splits)

lemma NewBaseProxy_resolves:
  "NewBaseProxy va lk cfg fs d actions = Inr p \<Longrightarrow> list_all (resolves p) (Filters (Config p))"
  using checkFilters_None [of fs "Name cfg" "Filters cfg"]
  by (simp add: NewBaseProxy_Inr resolves_def [abs_def])

lemma wrapped_cases: "wrapped b \<Longrightarrow> b = BodyReader (content b) 0"
  by (cases b) simp_all

lemma GetRaw_wrapped:
  "Body (Request r) = BodyReader c 0 \<Longrightarrow>
   HTTPRequest_GetRaw wire r = (Inr (wire (Request r) c), r)"
proof (cases r)
  case (fields req)
  assume "Body (Request r) = BodyReader c 0"
  with fields show ?thesis
    by (cases req) (simp add: HTTPRequest_GetRaw_def WrapHTTPBody_def DumpRequest_def)
qed

lemma GetBody_wrapped:
  "Body (Request r) = BodyReader c 0 \<Longrightarrow> HTTPRequest_GetBody r = (Inr c, r)"
proof (cases r)
  case (fields req)
  assume "Body (Request r) = BodyReader c 0"
  with fields show ?thesis
    by (cases req) (simp add: HTTPRequest_GetBody_def HTTPRequest_resetBody_def)
qed

lemma GetIP_no_colon:
  "CHR '':'' \<notin> set (RemoteAddr (Request r)) \<Longrightarrow>
   HTTPRequest_GetIP rest r = Inl (MustParse (Err ''not an ip:port''))"
  by (simp add: HTTPRequest_GetIP_def MustParseAddrPort_def ParseAddrPort_def)

lemma RunFilters_panics: "getIP e = Inl pn \<Longrightarrow> RunFilters getIP p e w = (Inl pn, w)"
  by (simp add: RunFilters_def)

lemma NewBaseProxy_demo:
  "list_all (\<lambda>f. registry f \<noteq> None) names \<Longrightarrow>
   NewBaseProxy verifyAction no_key_pair (config_of names rt nrt) registry d [''drop'', ''reset'']
     = Inr (proxy_of d names rt nrt)"
proof -
  assume "list_all (\<lambda>f. registry f \<noteq> None) names"
  then have "checkFilters registry n names = None" for n
    by (induction names) (auto simp: Get_def)
  then show ?thesis
    by (simp add: NewBaseProxy_def verifyAction_def config_of_def proxy_of_def defaultTimeout_def)
qed

lemma registry_simps:
  "registry ''geo'' = Some (always (Inr True))"
  "registry ''ua'' = Some (always (Inr False))"
  "registry ''ptr'' = Some (always (Inl (Err ''lookup timed out'')))"
  by (simp_all add: registry_def)

section \<open>Mutual exclusion of \<^verbatim>\<open>Prepare\<close> and \<^verbatim>\<open>Apply\<close> of one index\<close>

lemma consistent_start: "consistent (length (Filters (Config p))) (start p)"
  by (simp add: consistent_def start_def)

lemma did_simps [simp]:
  "mutexes (did t as s) = mutexes s" "mainpc (did t as s) = mainpc s"
  "workerpcs (did t as s) = workerpcs s" "crashed (did t as s) = crashed s"
  by (simp_all add: did_def)

lemma main_step_consistent:
  assumes c: "consistent (length (Filters (Config p))) s" and st: "main_step p e s = Some s'"
  shows "consistent (length (Filters (Config p))) s'"
proof (cases "mainpc s")
  case (MSpawn k)
  with c st show ?thesis
    by (auto simp: consistent_def main_step_def nth_list_update split: if_splits)
next
  case (MLoop j)
  with c st show ?thesis
    by (auto simp: consistent_def main_step_def nth_list_update less_Suc_eq split: if_splits)
next
  case (MHolding j)
  with c st show ?thesis
    by (auto simp: consistent_def main_step_def split: if_splits option.splits)
next
  case (MInApply j)
  with c st show ?thesis
    by (auto simp: consistent_def main_step_def less_Suc_eq_le
        split: if_splits option.splits sum.splits)
next
  case (MDefer r k)
  with c st show ?thesis
    by (auto simp: consistent_def main_step_def nth_list_update less_Suc_eq
        split: if_splits nat.splits)
next
  case (MDone r)
  with st show ?thesis by (simp add: main_step_def)
qed

lemma spawned_started: "spawned m i pc \<Longrightarrow> pc \<noteq> WNotStarted \<Longrightarrow> spawned m i pc'"
  by (cases m) auto

lemma worker_step_consistent:
  assumes c: "consistent (length (Filters (Config p))) s" and st: "worker_step p e i s = Some s'"
  shows "consistent (length (Filters (Config p))) s'"
proof -
  from st have i: "i < length (Filters (Config p))"
    by (simp add: worker_step_def split: if_splits)
  with c have "spawned (mainpc s) i (workerpcs s ! i)"
    by (simp add: consistent_def)
  then have sp: "workerpcs s ! i \<noteq> WNotStarted \<Longrightarrow> spawned (mainpc s) i pc'" for pc'
    by (rule spawned_started)
  show ?thesis
  proof (cases "workerpcs s ! i")
    case WNotStarted
    with st show ?thesis by (simp add: worker_step_def split: if_splits)
  next
    case WReady
    with c st sp show ?thesis
      by (auto simp: consistent_def worker_step_def nth_list_update split: if_splits)
  next
    case WHolding
    with c st sp show ?thesis
      by (auto simp: consistent_def worker_step_def nth_list_update split: if_splits sum.splits)
  next
    case WInPrepare
    with c st sp show ?thesis
      by (auto simp: consistent_def worker_step_def nth_list_update split: if_splits)
  next
    case WPrepared
    with c st sp show ?thesis
      by (auto simp: consistent_def worker_step_def nth_list_update split: if_splits)
  next
    case WDone
    with st show ?thesis by (simp add: worker_step_def split: if_splits)
  qed
qed

lemma step_consistent:
  "consistent (length (Filters (Config p))) s \<Longrightarrow> step p e t s = Some s' \<Longrightarrow>
   consistent (length (Filters (Config p))) s'"
  by (cases t) (auto split: if_splits intro: main_step_consistent worker_step_consistent)

lemma run_consistent:
  "consistent (length (Filters (Config p))) s \<Longrightarrow> run p e ts s = Some s' \<Longrightarrow>
   consistent (length (Filters (Config p))) s'"
proof (induction ts arbitrary: s)
  case Nil
  then show ?case by simp
next
  case (Cons t ts)
  from Cons.prems(2) obtain s1 where s1: "step p e t s = Some s1" "run p e ts s1 = Some s'"
    by (auto split: option.splits)
  from Cons.prems(1) s1(1) have "consistent (length (Filters (Config p))) s1"
    by (rule step_consistent)
  then show ?case using s1(2) by (rule Cons.IH)
qed

lemma apply_prepare_exclusive:
  assumes "run p e ts (start p) = Some s" "i < length (Filters (Config p))"
  shows "\<not> (mainpc s = MInApply i \<and> workerpcs s ! i = WInPrepare)"
proof -
  from consistent_start assms(1) have "consistent (length (Filters (Config p))) s"
    by (rule run_consistent)
  with assms(2) have "\<not> (worker_holds (workerpcs s ! i) \<and> main_holds (mainpc s) i)"
    by (simp add: consistent_def)
  then show ?thesis by auto
qed

section \<open>The result of the calling goroutine under every schedule\<close>

lemma loop_chain_result:
  "fst (RunFilters_loop p e ip i fs w) = chain_result p e fs"
proof (induction fs arbitrary: i w)
  case Nil
  show ?case by (simp add: case_prod_beta)
next
  case (Cons f fs)
  show ?case
  proof (cases "Get (filters p) f")
    case None
    then show ?thesis by simp
  next
    case (Some flt)
    with Cons.IH show ?thesis
      by (cases "Apply flt e") (simp_all add: case_prod_beta)
  qed
qed

lemma main_step_on_course:
  assumes c: "on_course p e (Filters (Config p)) (mainpc s)" and st: "main_step p e s = Some s'"
  shows "on_course p e (Filters (Config p)) (mainpc s')"
proof (cases "mainpc s")
  case (MSpawn k)
  with st show ?thesis by (auto simp: main_step_def split: if_splits)
next
  case (MLoop i)
  with c st show ?thesis by (auto simp: main_step_def split: if_splits)
next
  case (MHolding i)
  with c st show ?thesis
    by (auto simp: main_step_def Cons_nth_drop_Suc [symmetric] split: if_splits option.splits)
next
  case (MInApply i)
  with c st show ?thesis
    by (auto simp: main_step_def Cons_nth_drop_Suc [symmetric]
        split: if_splits option.splits sum.splits)
next
  case (MDefer r k)
  with c st show ?thesis by (auto simp: main_step_def split: nat.splits)
next
  case (MDone r)
  with st show ?thesis by (simp add: main_step_def)
qed

lemma worker_step_mainpc: "worker_step p e i s = Some s' \<Longrightarrow> mainpc s' = mainpc s"
  by (auto simp: worker_step_def split: if_splits wpc.splits sum.splits)

lemma step_on_course:
  "on_course p e (Filters (Config p)) (mainpc s) \<Longrightarrow> step p e t s = Some s' \<Longrightarrow>
   on_course p e (Filters (Config p)) (mainpc s')"
  by (cases t) (auto split: if_splits simp: worker_step_mainpc intro: main_step_on_course)

lemma run_on_course:
  "on_course p e (Filters (Config p)) (mainpc s) \<Longrightarrow> run p e ts s = Some s' \<Longrightarrow>
   on_course p e (Filters (Config p)) (mainpc s')"
proof (induction ts arbitrary: s)
  case Nil
  then show ?case by simp
next
  case (Cons t ts)
  from Cons.prems(2) obtain s1 where s1: "step p e t s = Some s1" "run p e ts s1 = Some s'"
    by (auto split: option.splits)
  from Cons.prems(1) s1(1) have "on_course p e (Filters (Config p)) (mainpc s1)"
    by (rule step_on_course)
  then show ?case using s1(2) by (rule Cons.IH)
qed

lemma result_under_any_schedule:
  assumes "run p e ts (start p) = Some s" "mainpc s = MDone r"
  shows "r = fst (RunFilters_loop p e ip 0 (Filters (Config p)) w)"
proof -
  have "on_course p e (Filters (Config p)) (mainpc (start p))"
    by (simp add: start_def)
  from this assms(1) have "on_course p e (Filters (Config p)) (mainpc s)"
    by (rule run_on_course)
  with assms(2) show ?thesis by (simp add: loop_chain_result)
qed

section \<open>The effects of the loop on a chain whose names resolve\<close>

lemma prepare_go [simp]:
  "filter is_go (trace (prepareFilters p e w)) =
     filter is_go (trace w) @ map (\<lambda>(i, f). EvGo i f) (enumerate 0 (Filters (Config p)))"
proof -
  have "filter is_go (map (\<lambda>(i, f). EvGo i f) xs) = map (\<lambda>(i, f). EvGo i f) xs" for xs :: "(nat \<times> string) list"
    by (induction xs) auto
  then show ?thesis by (simp add: prepareFilters_def)
qed

lemma isRejected_go:
  "filter is_go (trace (snd (isRejectedByThreshold p ip w))) = filter is_go (trace w)"
  by (simp add: isRejectedByThreshold_def call_db_def
      split: sum.splits threshold_case.splits prod.splits)

lemma loop_effects:
  "list_all (resolves p) fs \<Longrightarrow>
   store (snd (RunFilters_loop p e ip i fs w)) =
     snd ((if list_ex (signals p e) fs then IncRejects (db p) ip else IncAccepts (db p) ip)
            (store w)) \<and>
   filter is_increment (trace (snd (RunFilters_loop p e ip i fs w))) =
     filter is_increment (trace w) @
     [if list_ex (signals p e) fs then EvIncRejects ip else EvIncAccepts ip] \<and>
   filter is_apply (trace (snd (RunFilters_loop p e ip i fs w))) =
     filter is_apply (trace w) @ map (\<lambda>(j, f). EvApply j f) (enumerate i (applied p e fs)) \<and>
   filter is_go (trace (snd (RunFilters_loop p e ip i fs w))) = filter is_go (trace w)"
proof (induction fs arbitrary: i w)
  case Nil
  show ?case by (simp add: call_db_def case_prod_beta split: option.splits)
next
  case (Cons f fs)
  from Cons.prems obtain flt where g: "Get (filters p) f = Some flt"
    by (auto simp: resolves_def)
  from Cons.prems have r: "list_all (resolves p) fs" by simp
  show ?case
  proof (cases "Apply flt e")
    case (Inl err)
    with g have ns: "\<not> signals p e f" by (simp add: signals_def)
    from Inl g ns
      Cons.IH [OF r, of "Suc i" "emit (EvLog FilterErrorSkipping) (emit (EvApply i f) (emit (EvLock i) w))"]
    show ?thesis by (simp add: case_prod_beta)
  next
    case (Inr b)
    show ?thesis
    proof (cases b)
      case True
      with Inr g have "signals p e f" by (simp add: signals_def)
      with True Inr g show ?thesis
        by (simp add: case_prod_beta call_db_def split: option.splits)
    next
      case False
      with Inr g have ns: "\<not> signals p e f" by (simp add: signals_def)
      from False Inr g ns Cons.IH [OF r, of "Suc i" "emit (EvApply i f) (emit (EvLock i) w)"]
      show ?thesis by (simp add: case_prod_beta)
    qed
  qed
qed

lemma mem_db_inc:
  "IncAccepts mem_db ip s = (None, (ip, (mem_get s ip)\<lparr>Accepts := Accepts (mem_get s ip) + 1\<rparr>) # s)"
  "IncRejects mem_db ip s = (None, (ip, (mem_get s ip)\<lparr>Rejects := Rejects (mem_get s ip) + 1\<rparr>) # s)"
  by (simp_all add: mem_db_def)

section \<open>The claims\<close>

text \<open>
  C1, as amended. For an identity whose accepts have reached a positive
  \<^verbatim>\<open>NoRejectThreshold\<close>, the threshold check does not reject, whatever the rejects of
  the identity and the reject threshold are. \<^verbatim>\<open>RunFilters\<close> then evaluates the chain
  as for any other identity: it launches a prepare worker for every filter of the chain,
  applies the filters in order up to and including the first that signals filtered, and
  returns accepted exactly when no filter of the chain signals filtered. Its single counter
  increment, after the lookup, is \<^verbatim>\<open>IncRejects\<close> when a filter signals filtered and
  \<^verbatim>\<open>IncAccepts\<close> otherwise.
\<close>

theorem allow_listed:
  "getIP e = Inr ip \<Longrightarrow> 0 < NoRejectThreshold (FilterSettings (Config p)) \<Longrightarrow>
   NoRejectThreshold (FilterSettings (Config p)) \<le> Accepts (looked_up p ip w) \<Longrightarrow>
   list_all (resolves p) (Filters (Config p)) \<Longrightarrow>
   \<not> fst (isRejectedByThreshold p ip w) \<and>
   fst (RunFilters getIP p e w) = Inr (\<not> list_ex (signals p e) (Filters (Config p))) \<and>
   filter is_go (trace (snd (RunFilters getIP p e w))) =
     filter is_go (trace w) @ map (\<lambda>(j, f). EvGo j f) (enumerate 0 (Filters (Config p))) \<and>
   filter is_apply (trace (snd (RunFilters getIP p e w))) =
     filter is_apply (trace w) @
     map (\<lambda>(j, f). EvApply j f) (enumerate 0 (applied p e (Filters (Config p)))) \<and>
   filter is_increment (trace (snd (RunFilters getIP p e w))) =
     filter is_increment (trace w) @
     [if list_ex (signals p e) (Filters (Config p)) then EvIncRejects ip else EvIncAccepts ip] \<and>
   store (snd (RunFilters getIP p e w)) =
     snd ((if list_ex (signals p e) (Filters (Config p)) then IncRejects (db p) ip
           else IncAccepts (db p) ip) (snd (GetVerdict (db p) ip (store w))))"
proof -
  assume ip: "getIP e = Inr ip" and t: "0 < NoRejectThreshold (FilterSettings (Config p))"
    "NoRejectThreshold (FilterSettings (Config p)) \<le> Accepts (looked_up p ip w)"
    and rs: "list_all (resolves p) (Filters (Config p))"
  from t have nr: "\<not> fst (isRejectedByThreshold p ip w)"
    by (simp add: isRejected_fst looked_up_allow)
  from ip nr rs
    loop_effects [OF rs, of e ip 0 "prepareFilters p e (snd (isRejectedByThreshold p ip w))"]
  show ?thesis
    by (simp add: RunFilters_run loop_result isRejected_trace isRejected_go isRejected_store)
qed

theorem allow_listed_witness:
  "\<not> fst (isRejectedByThreshold (proxy_of mem_db [''ua'', ''geo'', ''ua''] 2 3) ''198.51.100.7''
         (world_of [(''198.51.100.7'', \<lparr>Accepts = 5, Rejects = 9\<rparr>)])) \<and>
   fst (RunFilters peer_ip (proxy_of mem_db [''ua'', ''geo'', ''ua''] 2 3) ''198.51.100.7''
         (world_of [(''198.51.100.7'', \<lparr>Accepts = 5, Rejects = 9\<rparr>)])) = Inr False \<and>
   filter is_go (trace (snd (RunFilters peer_ip (proxy_of mem_db [''ua'', ''geo'', ''ua''] 2 3)
         ''198.51.100.7'' (world_of [(''198.51.100.7'', \<lparr>Accepts = 5, Rejects = 9\<rparr>)])))) =
     [EvGo 0 ''ua'', EvGo 1 ''geo'', EvGo 2 ''ua''] \<and>
   filter is_apply (trace (snd (RunFilters peer_ip (proxy_of mem_db [''ua'', ''geo'', ''ua''] 2 3)
         ''198.51.100.7'' (world_of [(''198.51.100.7'', \<lparr>Accepts = 5, Rejects = 9\<rparr>)])))) =
     [EvApply 0 ''ua'', EvApply 1 ''geo''] \<and>
   filter is_increment (trace (snd (RunFilters peer_ip (proxy_of mem_db [''ua'', ''geo'', ''ua''] 2 3)
         ''198.51.100.7'' (world_of [(''198.51.100.7'', \<lparr>Accepts = 5, Rejects = 9\<rparr>)])))) =
     [EvIncRejects ''198.51.100.7''] \<and>
   store (snd (RunFilters peer_ip (proxy_of mem_db [''ua'', ''geo'', ''ua''] 2 3)
         ''198.51.100.7'' (world_of [(''198.51.100.7'', \<lparr>Accepts = 5, Rejects = 9\<rparr>)]))) =
     [(''198.51.100.7'', \<lparr>Accepts = 5, Rejects = 10\<rparr>),
      (''198.51.100.7'', \<lparr>Accepts = 5, Rejects = 9\<rparr>)] \<and>
   fst (RunFilters peer_ip (proxy_of mem_db [''ua''] 2 3) ''198.51.100.7''
         (world_of [(''198.51.100.7'', \<lparr>Accepts = 5, Rejects = 9\<rparr>)])) = Inr True"
proof -
  have ip: "peer_ip ''198.51.100.7'' = Inr ''198.51.100.7''"
    by (simp add: peer_ip_def)
  have rs: "list_all (resolves (proxy_of mem_db names 2 3))
      (Filters (Config (proxy_of mem_db names 2 3)))"
    if "set names \<subseteq> {''ua'', ''geo''}" for names
    using that by (auto simp: list_all_iff resolves_def Get_def demo_simps registry_def)
  have sg: "signals (proxy_of mem_db names 2 3) ''198.51.100.7'' ''geo''"
    "\<not> signals (proxy_of mem_db names 2 3) ''198.51.100.7'' ''ua''" for names
    by (simp_all add: signals_def Get_def demo_simps registry_def always_def)
  have a: "fst (RunFilters peer_ip (proxy_of mem_db [''ua''] 2 3) ''198.51.100.7''
         (world_of [(''198.51.100.7'', \<lparr>Accepts = 5, Rejects = 9\<rparr>)])) = Inr True"
    using allow_listed [where getIP = peer_ip and e = "''198.51.100.7''"
        and ip = "''198.51.100.7''" and p = "proxy_of mem_db [''ua''] 2 3"
        and w = "world_of [(''198.51.100.7'', \<lparr>Accepts = 5, Rejects = 9\<rparr>)]", OF ip _ _ rs]
    by (simp add: demo_simps looked_up_def mem_get_def sg)
  show ?thesis
    using allow_listed [where getIP = peer_ip and e = "''198.51.100.7''"
        and ip = "''198.51.100.7''" and p = "proxy_of mem_db [''ua'', ''geo'', ''ua''] 2 3"
        and w = "world_of [(''198.51.100.7'', \<lparr>Accepts = 5, Rejects = 9\<rparr>)]", OF ip _ _ rs] a
    by (simp add: demo_simps looked_up_def mem_get_def sg mem_db_inc enumerate_eq_zip upt_rec)
qed

text \<open>
  C1 as it is stated fails: the identity below is allow-listed (5 accepts, threshold 3),
  and yet the prepare worker of \<open>geo\<close> is launched, \<open>geo\<close> is applied, and the
  entity is rejected.
\<close>

theorem allow_listed_counterexample:
  "0 < NoRejectThreshold (FilterSettings (Config (proxy_of mem_db [''geo''] 2 3))) \<and>
   NoRejectThreshold (FilterSettings (Config (proxy_of mem_db [''geo''] 2 3)))
     \<le> Accepts (looked_up (proxy_of mem_db [''geo''] 2 3) ''198.51.100.7''
          (world_of [(''198.51.100.7'', \<lparr>Accepts = 5, Rejects = 0\<rparr>)])) \<and>
   RunFilters peer_ip (proxy_of mem_db [''geo''] 2 3) ''198.51.100.7''
       (world_of [(''198.51.100.7'', \<lparr>Accepts = 5, Rejects = 0\<rparr>)]) =
     (Inr False,
      \<lparr>store = [(''198.51.100.7'', \<lparr>Accepts = 5, Rejects = 1\<rparr>),
                (''198.51.100.7'', \<lparr>Accepts = 5, Rejects = 0\<rparr>)],
       trace = [EvGetVerdict ''198.51.100.7'', EvGo 0 ''geo'', EvLock 0, EvApply 0 ''geo'',
                EvLog Filtered, EvIncRejects ''198.51.100.7'', EvUnlock 0]\<rparr>)"
  by (simp add: RunFilters_def peer_ip_def isRejectedByThreshold_def call_db_def demo_simps
      mem_get_def threshold_switch_def emit_def looked_up_def prepareFilters_def Get_def
      registry_def always_def mem_db_def)

text \<open>
  C2. The threshold check rejects an identity if and only if the allow-list rule is not
  satisfied, the reject threshold is positive (zero disables the rule) and the rejects of
  the identity have reached it. When it rejects, \<^verbatim>\<open>RunFilters\<close> returns rejected,
  the store has seen the lookup only, no filter was invoked (no prepare worker launched,
  no \<^verbatim>\<open>Apply\<close> called) and no counter was incremented.
\<close>

theorem threshold_reject:
  "getIP e = Inr ip \<Longrightarrow>
   fst (isRejectedByThreshold p ip w) =
     (\<not> (NoRejectThreshold (FilterSettings (Config p)) > 0 \<and>
         Accepts (looked_up p ip w) \<ge> NoRejectThreshold (FilterSettings (Config p))) \<and>
      RejectThreshold (FilterSettings (Config p)) > 0 \<and>
      Rejects (looked_up p ip w) \<ge> RejectThreshold (FilterSettings (Config p))) \<and>
   (fst (isRejectedByThreshold p ip w) \<longrightarrow>
      fst (RunFilters getIP p e w) = Inr False \<and>
      store (snd (RunFilters getIP p e w)) = snd (GetVerdict (db p) ip (store w)) \<and>
      filter is_filter_call (trace (snd (RunFilters getIP p e w))) =
        filter is_filter_call (trace w) \<and>
      filter is_increment (trace (snd (RunFilters getIP p e w))) =
        filter is_increment (trace w))"
  by (simp add: RunFilters_rejected isRejected_store isRejected_trace)
     (simp add: isRejected_fst threshold_switch_Reject)

theorem threshold_reject_witness:
  "fst (isRejectedByThreshold (proxy_of mem_db [''ua''] 2 0) ''198.51.100.7''
         (world_of [(''198.51.100.7'', \<lparr>Accepts = 0, Rejects = 2\<rparr>)])) \<and>
   fst (RunFilters peer_ip (proxy_of mem_db [''ua''] 2 0) ''198.51.100.7''
         (world_of [(''198.51.100.7'', \<lparr>Accepts = 0, Rejects = 2\<rparr>)])) = Inr False \<and>
   trace (snd (RunFilters peer_ip (proxy_of mem_db [''ua''] 2 0) ''198.51.100.7''
         (world_of [(''198.51.100.7'', \<lparr>Accepts = 0, Rejects = 2\<rparr>)]))) =
     [EvGetVerdict ''198.51.100.7'', EvLog RejectedPermanently]"
proof -
  have ip: "peer_ip ''198.51.100.7'' = Inr ''198.51.100.7''"
    by (simp add: peer_ip_def)
  have t: "trace (snd (RunFilters peer_ip (proxy_of mem_db [''ua''] 2 0) ''198.51.100.7''
         (world_of [(''198.51.100.7'', \<lparr>Accepts = 0, Rejects = 2\<rparr>)]))) =
     [EvGetVerdict ''198.51.100.7'', EvLog RejectedPermanently]"
    by (simp add: RunFilters_def peer_ip_def isRejectedByThreshold_def call_db_def demo_simps
        mem_get_def threshold_switch_def emit_def)
  show ?thesis
    using threshold_reject [where getIP = peer_ip and e = "''198.51.100.7''"
        and ip = "''198.51.100.7''" and p = "proxy_of mem_db [''ua''] 2 0"
        and w = "world_of [(''198.51.100.7'', \<lparr>Accepts = 0, Rejects = 2\<rparr>)]"] ip t
    by (simp add: looked_up_def demo_simps mem_get_def)
qed

text \<open>
  C3. Let the filter at position \<open>k\<close> of the chain signal filtered, and no filter
  before it, with no rejection by threshold. Then \<^verbatim>\<open>RunFilters\<close> returns rejected;
  the only counter increment it attempts is one \<^verbatim>\<open>IncRejects\<close> for the identity, and
  the store it leaves is the one this increment leaves after the lookup; and the calls of
  \<^verbatim>\<open>Apply\<close> are those of the positions \<open>0\<close> to \<open>k\<close>, in this order, so no filter
  after position \<open>k\<close> is applied.
\<close>

theorem filtered_at_position:
  "getIP e = Inr ip \<Longrightarrow> \<not> fst (isRejectedByThreshold p ip w) \<Longrightarrow>
   list_all (resolves p) (Filters (Config p)) \<Longrightarrow>
   k < length (Filters (Config p)) \<Longrightarrow>
   signals p e (Filters (Config p) ! k) \<Longrightarrow>
   \<not> list_ex (signals p e) (take k (Filters (Config p))) \<Longrightarrow>
   fst (RunFilters getIP p e w) = Inr False \<and>
   store (snd (RunFilters getIP p e w)) =
     snd (IncRejects (db p) ip (snd (GetVerdict (db p) ip (store w)))) \<and>
   filter is_increment (trace (snd (RunFilters getIP p e w))) =
     filter is_increment (trace w) @ [EvIncRejects ip] \<and>
   filter is_apply (trace (snd (RunFilters getIP p e w))) =
     filter is_apply (trace w) @
     map (\<lambda>(j, f). EvApply j f) (enumerate 0 (take (Suc k) (Filters (Config p))))"
  using loop_filtered [of k "Filters (Config p)" p e ip 0
      "prepareFilters p e (snd (isRejectedByThreshold p ip w))"]
  by (simp add: RunFilters_run list_all_take isRejected_trace isRejected_store)

theorem filtered_at_position_witness:
  "fst (RunFilters peer_ip (proxy_of mem_db [''ua'', ''ptr'', ''geo'', ''ua''] 0 0) ''198.51.100.7''
         (world_of [])) = Inr False \<and>
   store (snd (RunFilters peer_ip (proxy_of mem_db [''ua'', ''ptr'', ''geo'', ''ua''] 0 0)
         ''198.51.100.7'' (world_of []))) = [(''198.51.100.7'', \<lparr>Accepts = 0, Rejects = 1\<rparr>)] \<and>
   filter is_increment (trace (snd (RunFilters peer_ip
         (proxy_of mem_db [''ua'', ''ptr'', ''geo'', ''ua''] 0 0) ''198.51.100.7'' (world_of [])))) =
     [EvIncRejects ''198.51.100.7''] \<and>
   filter is_apply (trace (snd (RunFilters peer_ip
         (proxy_of mem_db [''ua'', ''ptr'', ''geo'', ''ua''] 0 0) ''198.51.100.7'' (world_of [])))) =
     [EvApply 0 ''ua'', EvApply 1 ''ptr'', EvApply 2 ''geo'']"
proof -
  have ip: "peer_ip ''198.51.100.7'' = Inr ''198.51.100.7''"
    by (simp add: peer_ip_def)
  have nr: "\<not> fst (isRejectedByThreshold (proxy_of mem_db [''ua'', ''ptr'', ''geo'', ''ua''] 0 0)
      ''198.51.100.7'' (world_of []))"
    by (simp add: isRejected_fst threshold_switch_def demo_simps)
  have rs: "list_all (resolves (proxy_of mem_db [''ua'', ''ptr'', ''geo'', ''ua''] 0 0))
      (Filters (Config (proxy_of mem_db [''ua'', ''ptr'', ''geo'', ''ua''] 0 0)))"
    by (simp add: resolves_def Get_def demo_simps registry_def)
  have k: "2 < length (Filters (Config (proxy_of mem_db [''ua'', ''ptr'', ''geo'', ''ua''] 0 0)))"
    by (simp add: demo_simps)
  have sg: "signals (proxy_of mem_db [''ua'', ''ptr'', ''geo'', ''ua''] 0 0) ''198.51.100.7''
      (Filters (Config (proxy_of mem_db [''ua'', ''ptr'', ''geo'', ''ua''] 0 0)) ! 2)"
    by (simp add: signals_def Get_def demo_simps registry_def always_def)
  have ns: "\<not> list_ex (signals (proxy_of mem_db [''ua'', ''ptr'', ''geo'', ''ua''] 0 0) ''198.51.100.7'')
      (take 2 (Filters (Config (proxy_of mem_db [''ua'', ''ptr'', ''geo'', ''ua''] 0 0))))"
    by (simp add: signals_def Get_def demo_simps registry_def always_def numeral_2_eq_2)
  show ?thesis
    using filtered_at_position [where getIP = peer_ip and e = "''198.51.100.7''"
        and ip = "''198.51.100.7''" and p = "proxy_of mem_db [''ua'', ''ptr'', ''geo'', ''ua''] 0 0"
        and w = "world_of []" and k = 2, OF ip nr rs k sg ns]
    by (simp add: demo_simps numeral_3_eq_3 enumerate_eq_zip upt_rec mem_db_inc mem_get_def
        zero_verdict_def)
qed

text \<open>
  C4. When the threshold check does not reject and no filter of the chain signals filtered
  (the chain may be empty), \<^verbatim>\<open>RunFilters\<close> returns accepted; the only counter
  increment it attempts is one \<^verbatim>\<open>IncAccepts\<close> for the identity, and the store it
  leaves is the one this increment leaves after the lookup; and every filter of the chain
  has been applied, in order.
\<close>

theorem all_pass:
  "getIP e = Inr ip \<Longrightarrow> \<not> fst (isRejectedByThreshold p ip w) \<Longrightarrow>
   list_all (resolves p) (Filters (Config p)) \<Longrightarrow>
   \<not> list_ex (signals p e) (Filters (Config p)) \<Longrightarrow>
   fst (RunFilters getIP p e w) = Inr True \<and>
   store (snd (RunFilters getIP p e w)) =
     snd (IncAccepts (db p) ip (snd (GetVerdict (db p) ip (store w)))) \<and>
   filter is_increment (trace (snd (RunFilters getIP p e w))) =
     filter is_increment (trace w) @ [EvIncAccepts ip] \<and>
   filter is_apply (trace (snd (RunFilters getIP p e w))) =
     filter is_apply (trace w) @ map (\<lambda>(j, f). EvApply j f) (enumerate 0 (Filters (Config p)))"
  using loop_pass [of p "Filters (Config p)" e ip 0
      "prepareFilters p e (snd (isRejectedByThreshold p ip w))"]
  by (simp add: RunFilters_run isRejected_trace isRejected_store)

theorem all_pass_witness:
  "fst (RunFilters peer_ip (proxy_of mem_db [] 0 0) ''198.51.100.7'' (world_of [])) = Inr True \<and>
   store (snd (RunFilters peer_ip (proxy_of mem_db [] 0 0) ''198.51.100.7'' (world_of []))) =
     [(''198.51.100.7'', \<lparr>Accepts = 1, Rejects = 0\<rparr>)] \<and>
   filter is_increment (trace (snd (RunFilters peer_ip (proxy_of mem_db [] 0 0)
         ''198.51.100.7'' (world_of [])))) = [EvIncAccepts ''198.51.100.7''] \<and>
   fst (RunFilters peer_ip (proxy_of mem_db [''ua'', ''ua''] 0 0) ''198.51.100.7'' (world_of []))
     = Inr True \<and>
   store (snd (RunFilters peer_ip (proxy_of mem_db [''ua'', ''ua''] 0 0) ''198.51.100.7''
         (world_of []))) = [(''198.51.100.7'', \<lparr>Accepts = 1, Rejects = 0\<rparr>)] \<and>
   filter is_increment (trace (snd (RunFilters peer_ip (proxy_of mem_db [''ua'', ''ua''] 0 0)
         ''198.51.100.7'' (world_of [])))) = [EvIncAccepts ''198.51.100.7''] \<and>
   filter is_apply (trace (snd (RunFilters peer_ip (proxy_of mem_db [''ua'', ''ua''] 0 0)
         ''198.51.100.7'' (world_of [])))) = [EvApply 0 ''ua'', EvApply 1 ''ua'']"
proof -
  have ip: "peer_ip ''198.51.100.7'' = Inr ''198.51.100.7''"
    by (simp add: peer_ip_def)
  have nr: "\<not> fst (isRejectedByThreshold (proxy_of mem_db names 0 0) ''198.51.100.7'' (world_of []))"
    for names
    by (simp add: isRejected_fst threshold_switch_def demo_simps)
  have e: "fst (RunFilters peer_ip (proxy_of mem_db [] 0 0) ''198.51.100.7'' (world_of [])) = Inr True \<and>
   store (snd (RunFilters peer_ip (proxy_of mem_db [] 0 0) ''198.51.100.7'' (world_of []))) =
     [(''198.51.100.7'', \<lparr>Accepts = 1, Rejects = 0\<rparr>)] \<and>
   filter is_increment (trace (snd (RunFilters peer_ip (proxy_of mem_db [] 0 0)
         ''198.51.100.7'' (world_of [])))) = [EvIncAccepts ''198.51.100.7'']"
    using all_pass [where getIP = peer_ip and e = "''198.51.100.7''"
        and ip = "''198.51.100.7''" and p = "proxy_of mem_db [] 0 0" and w = "world_of []", OF ip nr]
    by (simp add: demo_simps mem_db_inc mem_get_def zero_verdict_def)
  have rs: "list_all (resolves (proxy_of mem_db [''ua'', ''ua''] 0 0))
      (Filters (Config (proxy_of mem_db [''ua'', ''ua''] 0 0)))"
    by (simp add: resolves_def Get_def demo_simps registry_def)
  have ns: "\<not> list_ex (signals (proxy_of mem_db [''ua'', ''ua''] 0 0) ''198.51.100.7'')
      (Filters (Config (proxy_of mem_db [''ua'', ''ua''] 0 0)))"
    by (simp add: signals_def Get_def demo_simps registry_def always_def)
  show ?thesis
    using all_pass [where getIP = peer_ip and e = "''198.51.100.7''"
        and ip = "''198.51.100.7''" and p = "proxy_of mem_db [''ua'', ''ua''] 0 0"
        and w = "world_of []", OF ip nr rs ns] e
    by (simp add: demo_simps mem_db_inc mem_get_def zero_verdict_def enumerate_eq_zip upt_rec)
qed

text \<open>
  C5. A filter whose \<^verbatim>\<open>Apply\<close> fails counts as if it had let the entity pass. Take
  any name \<open>g\<close> and replace the filter registered under it by the filter that passes
  wherever the original fails: the result of \<^verbatim>\<open>RunFilters\<close>, the store it leaves and
  its trace, the log line "Filter error, skipping..." apart, are the same. In particular,
  when the last filter of the chain fails and every other filter passes, the entity is
  accepted.
\<close>

theorem apply_error_skipped:
  "fst (RunFilters getIP (with_error_as_pass g p) e w) = fst (RunFilters getIP p e w) \<and>
   store (snd (RunFilters getIP (with_error_as_pass g p) e w)) =
     store (snd (RunFilters getIP p e w)) \<and>
   filter (\<lambda>ev. \<not> is_skip_line ev) (trace (snd (RunFilters getIP (with_error_as_pass g p) e w))) =
     filter (\<lambda>ev. \<not> is_skip_line ev) (trace (snd (RunFilters getIP p e w))) \<and>
   (getIP e = Inr ip \<and> \<not> fst (isRejectedByThreshold p ip w) \<and>
    Filters (Config p) \<noteq> [] \<and> errors p e (last (Filters (Config p))) \<and>
    list_all (passes p e) (butlast (Filters (Config p))) \<longrightarrow>
      fst (RunFilters getIP p e w) = Inr True)"
  using RunFilters_error_as_pass [of getIP g p e w] last_errors_accepted [of getIP e ip p w]
  by blast


theorem apply_error_skipped_witness:
  "fst (RunFilters peer_ip (proxy_of mem_db [''ua'', ''ptr''] 0 0) ''198.51.100.7'' (world_of []))
     = Inr True \<and>
   fst (RunFilters peer_ip (with_error_as_pass ''ptr'' (proxy_of mem_db [''ua'', ''ptr''] 0 0))
         ''198.51.100.7'' (world_of [])) = Inr True \<and>
   trace (snd (RunFilters peer_ip (proxy_of mem_db [''ua'', ''ptr''] 0 0) ''198.51.100.7''
         (world_of []))) =
     [EvGetVerdict ''198.51.100.7'', EvGo 0 ''ua'', EvGo 1 ''ptr'', EvLock 0, EvApply 0 ''ua'',
      EvLock 1, EvApply 1 ''ptr'', EvLog FilterErrorSkipping, EvIncAccepts ''198.51.100.7'',
      EvUnlock 1, EvUnlock 0]"
proof -
  have ip: "peer_ip ''198.51.100.7'' = Inr ''198.51.100.7''"
    by (simp add: peer_ip_def)
  have nr: "\<not> fst (isRejectedByThreshold (proxy_of mem_db [''ua'', ''ptr''] 0 0) ''198.51.100.7''
      (world_of []))"
    by (simp add: isRejected_fst threshold_switch_def demo_simps)
  have ne: "Filters (Config (proxy_of mem_db [''ua'', ''ptr''] 0 0)) \<noteq> []"
    by (simp add: demo_simps)
  have er: "errors (proxy_of mem_db [''ua'', ''ptr''] 0 0) ''198.51.100.7''
      (last (Filters (Config (proxy_of mem_db [''ua'', ''ptr''] 0 0))))"
    by (simp add: errors_def Get_def demo_simps registry_def always_def)
  have ps: "list_all (passes (proxy_of mem_db [''ua'', ''ptr''] 0 0) ''198.51.100.7'')
      (butlast (Filters (Config (proxy_of mem_db [''ua'', ''ptr''] 0 0))))"
    by (simp add: passes_def Get_def demo_simps registry_def always_def)
  have t: "trace (snd (RunFilters peer_ip (proxy_of mem_db [''ua'', ''ptr''] 0 0) ''198.51.100.7''
         (world_of []))) =
     [EvGetVerdict ''198.51.100.7'', EvGo 0 ''ua'', EvGo 1 ''ptr'', EvLock 0, EvApply 0 ''ua'',
      EvLock 1, EvApply 1 ''ptr'', EvLog FilterErrorSkipping, EvIncAccepts ''198.51.100.7'',
      EvUnlock 1, EvUnlock 0]"
    by (simp add: RunFilters_def peer_ip_def isRejectedByThreshold_def call_db_def demo_simps
      mem_get_def threshold_switch_def emit_def prepareFilters_def Get_def zero_verdict_def
      registry_def always_def mem_db_def)
  show ?thesis
    using apply_error_skipped [where getIP = peer_ip and e = "''198.51.100.7''"
        and ip = "''198.51.100.7''" and p = "proxy_of mem_db [''ua'', ''ptr''] 0 0"
        and w = "world_of []" and g = "''ptr''"] ip nr ne er ps t
    by simp
qed



text \<open>
  C7. A worker takes the mutex of its index inside its goroutine, not before the
  \<^verbatim>\<open>go\<close> statement, so the calling goroutine can be the first to lock it. In the run
  below, of a chain of one filter, the calling goroutine runs until \<^verbatim>\<open>RunFilters\<close>
  has returned and the worker runs after that: \<^verbatim>\<open>Apply\<close> of filter 0 is called, and
  returns, before \<^verbatim>\<open>Prepare\<close> of filter 0 is called. \<^verbatim>\<open>Prepare\<close> for a filter
  does not happen before its \<^verbatim>\<open>Apply\<close>.
\<close>

theorem apply_before_prepare:
  "map_option history
     (run (proxy_of mem_db [''ua''] 0 0) ''198.51.100.7''
        [Main, Main, Main, Main, Main, Main, Main, Main, Worker 0, Worker 0, Worker 0, Worker 0]
        (start (proxy_of mem_db [''ua''] 0 0))) =
   Some [(Main, Go 0), (Main, Lock 0), (Main, ApplyCall 0), (Main, ApplyReturn 0),
         (Main, IncAcceptsCall), (Main, Unlock 0), (Main, Return (Inr True)),
         (Worker 0, Lock 0), (Worker 0, PrepareCall 0), (Worker 0, PrepareReturn 0),
         (Worker 0, Unlock 0)]"
  by (simp add: start_def main_step_def worker_step_def did_def demo_simps Get_def
      registry_simps always_def prepare_worker_def)

text \<open>
  C8, as amended. For a proxy that \<^verbatim>\<open>NewBaseProxy\<close> returned and an entity whose
  \<^verbatim>\<open>GetIP\<close> does not panic, \<^verbatim>\<open>RunFilters\<close> returns a boolean, whatever the
  filters and the store do or fail to do.
\<close>

theorem returns_boolean:
  "getIP e = Inr ip \<Longrightarrow> NewBaseProxy va lk cfg fs d actions = Inr p \<Longrightarrow>
   \<exists>b. fst (RunFilters getIP p e w) = Inr b"
proof -
  assume ip: "getIP e = Inr ip" and n: "NewBaseProxy va lk cfg fs d actions = Inr p"
  from n have "list_all (resolves p) (Filters (Config p))"
    by (rule NewBaseProxy_resolves)
  with ip have "\<not> isl (fst (RunFilters getIP p e w))"
    by (rule RunFilters_returns)
  then show ?thesis by (cases "fst (RunFilters getIP p e w)") simp_all
qed

theorem returns_boolean_witness:
  "NewBaseProxy verifyAction no_key_pair (config_of [''ptr'', ''geo''] 0 0) registry down_db
     [''drop'', ''reset''] = Inr (proxy_of down_db [''ptr'', ''geo''] 0 0) \<and>
   (\<exists>b. fst (RunFilters peer_ip (proxy_of down_db [''ptr'', ''geo''] 0 0) ''198.51.100.7''
          (world_of [])) = Inr b)"
proof -
  have ip: "peer_ip ''198.51.100.7'' = Inr ''198.51.100.7''"
    by (simp add: peer_ip_def)
  have n: "NewBaseProxy verifyAction no_key_pair (config_of [''ptr'', ''geo''] 0 0) registry down_db
     [''drop'', ''reset''] = Inr (proxy_of down_db [''ptr'', ''geo''] 0 0)"
    by (rule NewBaseProxy_demo) (simp add: registry_simps)
  show ?thesis
    using returns_boolean [where getIP = peer_ip and e = "''198.51.100.7''"
        and ip = "''198.51.100.7''" and w = "world_of []", OF ip n] n
    by simp
qed

text \<open>
  C8 as it is stated fails: the remote address of the request below does not parse (it is
  the one of an unnamed Unix socket), \<^verbatim>\<open>GetIP\<close> panics, and \<^verbatim>\<open>RunFilters\<close>,
  which does not recover, panics with it before it has done anything.
\<close>

theorem never_fails_outward_counterexample:
  "RunFilters (HTTPRequest_GetIP reject_all) http_proxy (request_of ''@'' []) (world_of []) =
     (Inl (MustParse (Err ''not an ip:port'')), world_of [])"
  by (simp add: RunFilters_panics GetIP_no_colon request_of_def)

text \<open>
  C9, as amended. For an HTTP entity whose body is wrapped and unread, which is what the
  type documents as expected, the raw dump carries the whole body, the direct read returns
  the same bytes, and both leave the request as it was; so the body read after the dump,
  and the dump taken after the read, yield these bytes again: \<^verbatim>\<open>GetRaw\<close> does not
  consume the body.
\<close>

theorem body_read_twice:
  "wrapped (Body (Request r)) \<Longrightarrow>
   HTTPRequest_GetRaw wire r = (Inr (wire (Request r) (content (Body (Request r)))), r) \<and>
   HTTPRequest_GetBody r = (Inr (content (Body (Request r))), r) \<and>
   fst (HTTPRequest_GetBody (snd (HTTPRequest_GetRaw wire r))) =
     Inr (content (Body (Request r))) \<and>
   fst (HTTPRequest_GetRaw wire (snd (HTTPRequest_GetBody r))) =
     Inr (wire (Request r) (content (Body (Request r))))"
  using GetRaw_wrapped [of r "content (Body (Request r))" wire]
    GetBody_wrapped [of r "content (Body (Request r))"]
    wrapped_cases [of "Body (Request r)"]
  by simp

theorem body_read_twice_witness:
  "HTTPRequest_GetRaw simple_wire (request_of ''198.51.100.7:40000'' [104, 105]) =
     (Inr (simple_wire (Request (request_of ''198.51.100.7:40000'' [104, 105])) [104, 105]),
      request_of ''198.51.100.7:40000'' [104, 105]) \<and>
   HTTPRequest_GetBody (request_of ''198.51.100.7:40000'' [104, 105]) =
     (Inr [104, 105], request_of ''198.51.100.7:40000'' [104, 105]) \<and>
   fst (HTTPRequest_GetBody (snd (HTTPRequest_GetRaw simple_wire
        (request_of ''198.51.100.7:40000'' [104, 105])))) = Inr [104, 105]"
proof -
  have w: "wrapped (Body (Request (request_of ''198.51.100.7:40000'' [104, 105])))"
    by (simp add: request_of_def)
  have c: "content (Body (Request (request_of ''198.51.100.7:40000'' [104, 105]))) = [104, 105]"
    by (simp add: request_of_def)
  show ?thesis
    using body_read_twice [OF w, of simple_wire] by (simp add: c)
qed

text \<open>
  C9 as it is stated, for every HTTP entity, fails. On a request whose body is the plain
  stream of the standard library, the dump carries no body and the read that follows
  returns the two bytes of the body. On a request whose wrapped body has been read by one
  byte, the dump carries both bytes and the read that follows returns the second only.
\<close>

theorem body_read_twice_counterexample:
  "fst (HTTPRequest_GetRaw simple_wire (unwrapped_request ''198.51.100.7:40000'' [104, 105])) =
     Inr (simple_wire (Request (unwrapped_request ''198.51.100.7:40000'' [104, 105])) []) \<and>
   fst (HTTPRequest_GetBody (snd (HTTPRequest_GetRaw simple_wire
        (unwrapped_request ''198.51.100.7:40000'' [104, 105])))) = Inr [104, 105] \<and>
   fst (HTTPRequest_GetRaw simple_wire (unwrapped_request ''198.51.100.7:40000'' [104, 105])) \<noteq>
     Inr (simple_wire (Request (unwrapped_request ''198.51.100.7:40000'' [104, 105])) [104, 105]) \<and>
   fst (HTTPRequest_GetRaw simple_wire (half_read_request ''198.51.100.7:40000'' [104, 105])) =
     Inr (simple_wire (Request (half_read_request ''198.51.100.7:40000'' [104, 105])) [104, 105]) \<and>
   fst (HTTPRequest_GetBody (snd (HTTPRequest_GetRaw simple_wire
        (half_read_request ''198.51.100.7:40000'' [104, 105])))) = Inr [105]"
  by (simp add: HTTPRequest_GetRaw_def HTTPRequest_GetBody_def HTTPRequest_resetBody_def
      WrapHTTPBody_def DumpRequest_def unwrapped_request_def half_read_request_def simple_wire_def)

text \<open>
  C10. In a proxy that \<^verbatim>\<open>NewBaseProxy\<close> returns, every name of the configured chain
  resolves in the registry of the proxy. So the lookup whose found-flag \<^verbatim>\<open>RunFilters\<close>
  and the workers of \<^verbatim>\<open>prepareFilters\<close> discard never yields the nil filter: neither
  the apply loop nor the body of a worker panics.
\<close>

theorem names_resolve:
  "NewBaseProxy va lk cfg fs d actions = Inr p \<Longrightarrow>
   list_all (\<lambda>f. Get (filters p) f \<noteq> None) (Filters (Config p)) \<and>
   \<not> isl (fst (RunFilters_loop p e ip 0 (Filters (Config p)) w)) \<and>
   list_all (\<lambda>f. \<not> isl (prepare_worker p e f)) (Filters (Config p))"
proof -
  assume n: "NewBaseProxy va lk cfg fs d actions = Inr p"
  then have r: "list_all (resolves p) (Filters (Config p))"
    by (rule NewBaseProxy_resolves)
  then have a: "list_all (\<lambda>f. Get (filters p) f \<noteq> None) (Filters (Config p))"
    by (simp add: resolves_def [abs_def])
  from r have b: "\<not> isl (fst (RunFilters_loop p e ip 0 (Filters (Config p)) w))"
    by (simp add: loop_result)
  from a have c: "list_all (\<lambda>f. \<not> isl (prepare_worker p e f)) (Filters (Config p))"
    by (auto simp: list_all_iff prepare_worker_def split: option.splits)
  from a b c show ?thesis by simp
qed

theorem names_resolve_witness:
  "NewBaseProxy verifyAction no_key_pair (config_of [''geo'', ''ua''] 0 0) registry mem_db
     [''drop'', ''reset''] = Inr (proxy_of mem_db [''geo'', ''ua''] 0 0) \<and>
   list_all (\<lambda>f. Get (filters (proxy_of mem_db [''geo'', ''ua''] 0 0)) f \<noteq> None) [''geo'', ''ua''] \<and>
   \<not> isl (fst (RunFilters_loop (proxy_of mem_db [''geo'', ''ua''] 0 0) ''198.51.100.7''
           ''198.51.100.7'' 0 [''geo'', ''ua''] (world_of []))) \<and>
   list_all (\<lambda>f. \<not> isl (prepare_worker (proxy_of mem_db [''geo'', ''ua''] 0 0) ''198.51.100.7'' f))
     [''geo'', ''ua'']"
proof -
  have n: "NewBaseProxy verifyAction no_key_pair (config_of [''geo'', ''ua''] 0 0) registry mem_db
     [''drop'', ''reset''] = Inr (proxy_of mem_db [''geo'', ''ua''] 0 0)"
    by (rule NewBaseProxy_demo) (simp add: registry_simps)
  show ?thesis
    using names_resolve [OF n, of "''198.51.100.7''" "''198.51.100.7''" "world_of []"] n
    by (simp add: demo_simps)
qed

end
